theory Spec2Isabelle
  imports Complex_Main "HOL-Library.Multiset" "HOL-Library.Sublist"
begin

section \<open>AnimationData: data model\<close>

text \<open>
  The development embeds the class \<open>AnimationData\<close> (the variant whose activation clears
  the statistics cache and loads the statistics files with \<open>Promise.all\<close>) together with
  the interfaces it uses.

  Numbers. A JavaScript number is an IEEE-754 double: a finite value, an infinity or
  \<open>NaN\<close>. A finite double is a rational number, so a number is a \<open>jsnum\<close>, and an
  arithmetic operation on finite numbers rounds its exact result to the nearest double,
  ties to even, with gradual underflow and overflow to an infinity (\<open>roundDouble\<close>).
  A number read from a JSON document is a double too; \<open>1e400\<close> reads as \<open>Infinity\<close>.
  The two zeros are one value, as they are for \<open>===\<close> and for every comparison that
  the source makes.

  Documents. \<open>JSON.parse(content) as T\<close> is a decoder from text to \<open>T\<close> that can
  fail; the decoders are parameters (\<open>JSONParse\<close>). A decoded document has the
  declared type \<open>T\<close>, so it is an object and is truthy. The decoder of manifests
  can also return a value that is not a manifest, because discovery reads
  \<open>manifest.metadata.replication\<close> of whatever was parsed.

  Maps. A JavaScript \<open>Map\<close> iterates in insertion order, and some results depend on
  that order, so a \<open>Map\<close> is an association list with distinct keys in insertion
  order.
\<close>

subsection \<open>Numbers\<close>

datatype jsnum = Fin rat | PosInf | NegInf | NaN

text \<open>
  Rounding to the nearest double. \<open>exponentOf a\<close> is the exponent of the binade of
  \<open>a\<close>, not below the least normal exponent -1022: it is reached by halving a number
  that is at least 1 (at most 1023 times below \<open>2 ^ 1024\<close>) or by doubling a number
  below 1 (at most 1022 times). The unit in the last place is \<open>2 ^ (exponent - 52)\<close>;
  the number is rounded to a multiple of it, ties to the even multiple; a result of
  magnitude \<open>2 ^ 1024\<close> or more is an infinity.
\<close>

definition pow2 :: "int \<Rightarrow> rat" where
  "pow2 e = 2 powi e"

fun binadeUp :: "nat \<Rightarrow> rat \<Rightarrow> int \<Rightarrow> int" where
  "binadeUp fuel a e = (if fuel = 0 \<or> a < 2 then e else binadeUp (fuel - 1) (a / 2) (e + 1))"

fun binadeDown :: "nat \<Rightarrow> rat \<Rightarrow> int \<Rightarrow> int" where
  "binadeDown fuel a e = (if fuel = 0 \<or> 1 \<le> a then e else binadeDown (fuel - 1) (a * 2) (e - 1))"

declare binadeUp.simps [simp del] binadeDown.simps [simp del]

definition exponentOf :: "rat \<Rightarrow> int" where
  "exponentOf a = (if 1 \<le> a then binadeUp 1023 a 0 else binadeDown 1022 a 0)"

definition roundHalfEven :: "rat \<Rightarrow> int" where
  "roundHalfEven q =
     (let f = \<lfloor>q\<rfloor>; r = q - of_int f
      in if r < 1 / 2 then f else if 1 / 2 < r then f + 1 else if even f then f else f + 1)"

definition roundDouble :: "rat \<Rightarrow> jsnum" where
  "roundDouble x =
     (if x = 0 then Fin 0
      else if 2 ^ 1024 \<le> \<bar>x\<bar> then (if 0 < x then PosInf else NegInf)
      else
        let ulp = pow2 (exponentOf \<bar>x\<bar> - 52);
            r = of_int (roundHalfEven (\<bar>x\<bar> / ulp)) * ulp
        in if 2 ^ 1024 \<le> r then (if 0 < x then PosInf else NegInf)
           else Fin (if 0 < x then r else - r))"

text \<open>A rational is a double when rounding leaves it as it is.\<close>

definition isDouble :: "rat \<Rightarrow> bool" where
  "isDouble x = (roundDouble x = Fin x)"

text \<open>
  Comparison and arithmetic of numbers, with the special values of IEEE-754. A zero
  divisor is taken as the positive zero: the only divisor of the source is the
  difference of two timestamps, and the difference of two equal numbers is the positive
  zero.
\<close>

fun js_le :: "jsnum \<Rightarrow> jsnum \<Rightarrow> bool" where
  "js_le (Fin a) (Fin b) = (a \<le> b)"
| "js_le NaN _ = False"
| "js_le _ NaN = False"
| "js_le NegInf _ = True"
| "js_le _ PosInf = True"
| "js_le PosInf _ = False"
| "js_le _ NegInf = False"

definition js_ge :: "jsnum \<Rightarrow> jsnum \<Rightarrow> bool" where
  "js_ge a b = js_le b a"

definition js_gt :: "jsnum \<Rightarrow> jsnum \<Rightarrow> bool" where
  "js_gt a b = (js_le b a \<and> \<not> js_le a b)"

fun js_add :: "jsnum \<Rightarrow> jsnum \<Rightarrow> jsnum" where
  "js_add (Fin a) (Fin b) = roundDouble (a + b)"
| "js_add NaN _ = NaN"
| "js_add _ NaN = NaN"
| "js_add PosInf NegInf = NaN"
| "js_add NegInf PosInf = NaN"
| "js_add PosInf _ = PosInf"
| "js_add _ PosInf = PosInf"
| "js_add NegInf _ = NegInf"
| "js_add _ NegInf = NegInf"

fun js_negate :: "jsnum \<Rightarrow> jsnum" where
  "js_negate (Fin a) = Fin (- a)"
| "js_negate PosInf = NegInf"
| "js_negate NegInf = PosInf"
| "js_negate NaN = NaN"

definition js_sub :: "jsnum \<Rightarrow> jsnum \<Rightarrow> jsnum" where
  "js_sub a b = js_add a (js_negate b)"

fun js_mul :: "jsnum \<Rightarrow> jsnum \<Rightarrow> jsnum" where
  "js_mul (Fin a) (Fin b) = roundDouble (a * b)"
| "js_mul NaN _ = NaN"
| "js_mul _ NaN = NaN"
| "js_mul (Fin a) PosInf = (if a = 0 then NaN else if 0 < a then PosInf else NegInf)"
| "js_mul (Fin a) NegInf = (if a = 0 then NaN else if 0 < a then NegInf else PosInf)"
| "js_mul PosInf (Fin b) = (if b = 0 then NaN else if 0 < b then PosInf else NegInf)"
| "js_mul NegInf (Fin b) = (if b = 0 then NaN else if 0 < b then NegInf else PosInf)"
| "js_mul PosInf PosInf = PosInf"
| "js_mul PosInf NegInf = NegInf"
| "js_mul NegInf PosInf = NegInf"
| "js_mul NegInf NegInf = PosInf"

fun js_div :: "jsnum \<Rightarrow> jsnum \<Rightarrow> jsnum" where
  "js_div (Fin a) (Fin b) =
     (if b \<noteq> 0 then roundDouble (a / b)
      else if a = 0 then NaN else if 0 < a then PosInf else NegInf)"
| "js_div NaN _ = NaN"
| "js_div _ NaN = NaN"
| "js_div (Fin a) _ = Fin 0"
| "js_div PosInf (Fin b) = (if 0 \<le> b then PosInf else NegInf)"
| "js_div NegInf (Fin b) = (if 0 \<le> b then NegInf else PosInf)"
| "js_div PosInf PosInf = NaN"
| "js_div PosInf NegInf = NaN"
| "js_div NegInf PosInf = NaN"
| "js_div NegInf NegInf = NaN"

subsection \<open>Interfaces\<close>

record FileListItem =
  name :: string
  path :: string
  isDirectory :: bool

record ReplicationManifestMetadata =
  formatVersion :: string
  simulationId :: string
  replication :: jsnum
  name :: "string option"
  duration :: jsnum
  timeUnit :: string
  modelLayoutPath :: string
  sharedVisualConfigPath :: string
  backgroundSvgPath :: string

record EntityPathDataFileInfo =
  filePath :: string
  entryTimeStart :: jsnum
  entryTimeEnd :: jsnum
  entityCount :: "jsnum option"

record StatisticsDataFileInfo =
  type :: string
  componentId :: "string option"
  metricName :: string
  filePath :: string
  timeStart :: "jsnum option"
  timeEnd :: "jsnum option"

record ReplicationManifestData =
  metadata :: ReplicationManifestMetadata
  entityPathDataFiles :: "EntityPathDataFileInfo list"
  statisticsDataFiles :: "StatisticsDataFileInfo list"

datatype attribute = AString string | ANumber jsnum | ABoolean bool

record PathPoint =
  clock :: jsnum
  x :: jsnum
  y :: jsnum
  event :: "string option"
  state :: string
  componentId :: "string option"
  attributes :: "(string \<times> attribute) list option"

record EntityPath =
  type :: string
  path :: "PathPoint list"

text \<open>
  An \<open>EntityPathBatch\<close> is a plain object; it is represented by
  \<open>Object.entries(batch)\<close>, its own enumerable properties in enumeration order.
\<close>

type_synonym EntityPathBatch = "(string \<times> EntityPath) list"

record StatisticsMetadata =
  type :: string
  componentId :: "string option"
  metricName :: string
  simulationId :: string
  replication :: jsnum
  timeStart :: jsnum
  timeEnd :: jsnum
  timeUnit :: string

record StatisticsSummary =
  min' :: jsnum
  max' :: jsnum
  mean :: jsnum
  median :: jsnum
  stdDev :: jsnum
  count' :: jsnum

record TimeSeriesPoint =
  time :: jsnum
  value' :: jsnum

record StatisticsFile =
  metadata :: StatisticsMetadata
  summary :: StatisticsSummary
  timeSeries :: "TimeSeriesPoint list"

text \<open>
  \<open>ModelLayout\<close> is an opaque shared document; it is kept as the text it was decoded
  from. \<open>SharedVisualConfig\<close> has three declared fields.
\<close>

datatype ModelLayout = ModelLayout string

record SharedVisualConfig =
  theme :: string
  loop :: bool
  speedMultiplier :: jsnum

subsection \<open>The Content Accessor and the decoders\<close>

text \<open>
  \<open>readFileAsText\<close> and \<open>listDirectoryContents\<close> return \<open>None\<close> for
  \<open>undefined\<close>. \<open>completionOrder\<close> is the timing of the accessor: given the paths of
  reads that are in flight together, the order in which they complete. Only
  \<open>Promise.all\<close> has reads in flight together.
\<close>

record FileReader =
  readFileAsText :: "string \<Rightarrow> string option"
  listDirectoryContents :: "string \<Rightarrow> FileListItem list option"
  completionOrder :: "string list \<Rightarrow> string list"

text \<open>
  What \<open>JSON.parse\<close> can return for a manifest file, as far as discovery tells
  the values apart: a falsy value (\<open>null\<close>, \<open>false\<close>, \<open>0\<close>, \<open>""\<close>); a truthy
  value whose \<open>metadata\<close> is \<open>undefined\<close> or \<open>null\<close> (\<open>{}\<close>, an array, a
  number, a string, \<open>true\<close>, \<open>{"metadata": null}\<close>); or a manifest of the declared
  interface (a value whose \<open>metadata\<close> is an object is taken to have the declared
  fields). \<open>None\<close> is a parse error.
\<close>

datatype manifest_value = Falsy | WithoutMetadata | ManifestObject ReplicationManifestData

record JSONParse =
  parseManifest :: "string \<Rightarrow> manifest_value option"
  parseModelLayout :: "string \<Rightarrow> ModelLayout option"
  parseSharedVisualConfig :: "string \<Rightarrow> SharedVisualConfig option"
  parseEntityPathBatch :: "string \<Rightarrow> EntityPathBatch option"
  parseStatisticsFile :: "string \<Rightarrow> StatisticsFile option"

text \<open>\<open>if (content)\<close>: the empty string is falsy. A parse error is caught and logged.\<close>

definition fetchAndParseJSON :: "FileReader \<Rightarrow> (string \<Rightarrow> 'a option) \<Rightarrow> string \<Rightarrow> 'a option" where
  "fetchAndParseJSON reader parse relativePath =
     (case readFileAsText reader relativePath of
        None \<Rightarrow> None
      | Some content \<Rightarrow> if content \<noteq> [] then parse content else None)"

subsection \<open>Maps and objects\<close>

primrec map_set :: "'k \<Rightarrow> 'v \<Rightarrow> ('k \<times> 'v) list \<Rightarrow> ('k \<times> 'v) list" where
  "map_set k v [] = [(k, v)]"
| "map_set k v (e # es) = (if fst e = k then (k, v) # es else e # map_set k v es)"

definition map_has :: "'k \<Rightarrow> ('k \<times> 'v) list \<Rightarrow> bool" where
  "map_has k m = (k \<in> set (map fst m))"

definition map_get :: "'k \<Rightarrow> ('k \<times> 'v) list \<Rightarrow> 'v option" where
  "map_get k m = map_of m k"

text \<open>
  \<open>batch[entityId]\<close> reads a property of a plain object: an own property if there is
  one, otherwise the property of \<open>Object.prototype\<close> of that name. The members of
  \<open>Object.prototype\<close> are functions, and \<open>__proto__\<close> reads as the prototype itself:
  all are truthy. So the value read is an \<open>EntityPath\<close> or a prototype member.
\<close>

datatype property = PathValue EntityPath | PrototypeMember string

definition objectPrototypeKeys :: "string list" where
  "objectPrototypeKeys =
     [''constructor'', ''hasOwnProperty'', ''isPrototypeOf'', ''propertyIsEnumerable'',
      ''toLocaleString'', ''toString'', ''valueOf'', ''__defineGetter__'',
      ''__defineSetter__'', ''__lookupGetter__'', ''__lookupSetter__'', ''__proto__'']"

definition getProperty :: "EntityPathBatch \<Rightarrow> string \<Rightarrow> property option" where
  "getProperty batch key =
     (case map_of batch key of
        Some p \<Rightarrow> Some (PathValue p)
      | None \<Rightarrow> if key \<in> set objectPrototypeKeys then Some (PrototypeMember key) else None)"

subsection \<open>The state of an AnimationData\<close>

text \<open>
  \<open>readLog\<close> is a ghost field: the calls of \<open>fetchAndParseJSON<T>(path)\<close> made so
  far, each with the document type \<open>T\<close> asked for.
\<close>

datatype document =
  ManifestDocument | ModelLayoutDocument | SharedVisualConfigDocument
  | EntityPathBatchDocument | StatisticsDocument

record AnimationData =
  availableReplications :: "(jsnum \<times> ReplicationManifestData) list"
  modelLayout :: "ModelLayout option"
  sharedVisualConfig :: "SharedVisualConfig option"
  activeReplicationId :: "jsnum option"
  loadedEntityPathBatches :: "(string \<times> EntityPathBatch) list"
  entityPathsById :: "(string \<times> property) list"
  loadedStatisticsFiles :: "(string \<times> StatisticsFile) list"
  readLog :: "(document \<times> string) list"

definition AnimationData_new :: AnimationData where
  "AnimationData_new =
     \<lparr>availableReplications = [], modelLayout = None, sharedVisualConfig = None,
      activeReplicationId = None, loadedEntityPathBatches = [], entityPathsById = [],
      loadedStatisticsFiles = [], readLog = []\<rparr>"

definition logRead :: "document \<Rightarrow> string \<Rightarrow> AnimationData \<Rightarrow> AnimationData" where
  "logRead doc relativePath s = s\<lparr>readLog := readLog s @ [(doc, relativePath)]\<rparr>"

section \<open>Operations\<close>

subsection \<open>Manifest discovery\<close>

definition startsWith :: "string \<Rightarrow> string \<Rightarrow> bool" where
  "startsWith s pre = (take (length pre) s = pre)"

definition manifestPathOf :: "string \<Rightarrow> string" where
  "manifestPathOf itemName =
     ''replications/'' @ itemName @ ''/animation_manifest_'' @ itemName @ ''.json''"

text \<open>
  Discovery can throw: \<open>manifest.metadata.replication\<close> is a \<open>TypeError\<close> when
  \<open>manifest.metadata\<close> is \<open>undefined\<close> or \<open>null\<close>. The error leaves the loop and
  rejects the call; what the instance held when it was thrown stays. An operation that
  can throw returns the error, if any, with the state.
\<close>

datatype error = TypeError

text \<open>
  One iteration of the loop over the listing. \<open>continue\<close> leaves the state as it is.
  \<open>if (manifest)\<close> skips a parse error and a falsy value. A path is truthy when it is
  not the empty string; the assignment to \<open>this.modelLayout\<close> stores \<open>undefined\<close>
  when the fetch fails.
\<close>

definition discoverItem ::
  "FileReader \<Rightarrow> JSONParse \<Rightarrow> AnimationData \<Rightarrow> FileListItem \<Rightarrow> error option \<times> AnimationData" where
  "discoverItem reader json s item =
     (if \<not> isDirectory item \<or> \<not> startsWith (FileListItem.name item) ''rep_'' then (None, s)
      else
        let manifestPath = manifestPathOf (FileListItem.name item);
            s1 = logRead ManifestDocument manifestPath s
        in case fetchAndParseJSON reader (parseManifest json) manifestPath of
             None \<Rightarrow> (None, s1)
           | Some Falsy \<Rightarrow> (None, s1)
           | Some WithoutMetadata \<Rightarrow> (Some TypeError, s1)
           | Some (ManifestObject manifest) \<Rightarrow>
               let md = ReplicationManifestData.metadata manifest;
                   s2 = s1\<lparr>availableReplications :=
                          map_set (ReplicationManifestMetadata.replication md) manifest
                            (availableReplications s1)\<rparr>;
                   s3 = (if modelLayout s2 = None \<and> modelLayoutPath md \<noteq> []
                         then (logRead ModelLayoutDocument (modelLayoutPath md) s2)
                                \<lparr>modelLayout :=
                                   fetchAndParseJSON reader (parseModelLayout json)
                                     (modelLayoutPath md)\<rparr>
                         else s2)
               in (None,
                   if sharedVisualConfig s3 = None \<and> sharedVisualConfigPath md \<noteq> []
                   then (logRead SharedVisualConfigDocument (sharedVisualConfigPath md) s3)
                          \<lparr>sharedVisualConfig :=
                             fetchAndParseJSON reader (parseSharedVisualConfig json)
                               (sharedVisualConfigPath md)\<rparr>
                   else s3))"

text \<open>The loop: an iteration that throws ends it.\<close>

fun discoverLoop ::
  "FileReader \<Rightarrow> JSONParse \<Rightarrow> AnimationData \<Rightarrow> FileListItem list \<Rightarrow> error option \<times> AnimationData" where
  "discoverLoop reader json s [] = (None, s)"
| "discoverLoop reader json s (item # items) =
     (case discoverItem reader json s item of
        (Some e, s') \<Rightarrow> (Some e, s')
      | (None, s') \<Rightarrow> discoverLoop reader json s' items)"

text \<open>\<open>if (!replicationItems) return\<close>: an array, also an empty one, is truthy.\<close>

definition initializeOrDiscoverReplications ::
  "FileReader \<Rightarrow> JSONParse \<Rightarrow> AnimationData \<Rightarrow> error option \<times> AnimationData" where
  "initializeOrDiscoverReplications reader json s =
     (case listDirectoryContents reader ''replications'' of
        None \<Rightarrow> (None, s)
      | Some replicationItems \<Rightarrow> discoverLoop reader json s replicationItems)"

subsection \<open>Loading entity paths and statistics\<close>

definition indexBatch :: "(string \<times> property) list \<Rightarrow> EntityPathBatch \<Rightarrow> (string \<times> property) list" where
  "indexBatch index batch = foldl (\<lambda>m (id, p). map_set id (PathValue p) m) index batch"

definition loadEntityPathBatch ::
  "FileReader \<Rightarrow> JSONParse \<Rightarrow> AnimationData \<Rightarrow> EntityPathDataFileInfo \<Rightarrow> AnimationData" where
  "loadEntityPathBatch reader json s fileInfo =
     (if map_has (EntityPathDataFileInfo.filePath fileInfo) (loadedEntityPathBatches s) then s
      else
        let s1 = logRead EntityPathBatchDocument (EntityPathDataFileInfo.filePath fileInfo) s
        in case fetchAndParseJSON reader (parseEntityPathBatch json)
                  (EntityPathDataFileInfo.filePath fileInfo) of
             None \<Rightarrow> s1
           | Some batch \<Rightarrow>
               s1\<lparr>loadedEntityPathBatches :=
                     map_set (EntityPathDataFileInfo.filePath fileInfo) batch
                       (loadedEntityPathBatches s1),
                   entityPathsById := indexBatch (entityPathsById s1) batch\<rparr>)"

text \<open>
  \<open>loadStatisticsFile\<close> has two parts: the guard and the issue of the read, and
  \<open>finishStatisticsLoad\<close>, which runs when the read completes. \<open>loadStatisticsFile\<close>
  below is the call awaited on its own, with no other read in flight.
\<close>

definition finishStatisticsLoad ::
  "FileReader \<Rightarrow> JSONParse \<Rightarrow> AnimationData \<Rightarrow> string \<Rightarrow> AnimationData" where
  "finishStatisticsLoad reader json s relativePath =
     (case fetchAndParseJSON reader (parseStatisticsFile json) relativePath of
        None \<Rightarrow> s
      | Some statFile \<Rightarrow>
          s\<lparr>loadedStatisticsFiles := map_set relativePath statFile (loadedStatisticsFiles s)\<rparr>)"

definition loadStatisticsFile ::
  "FileReader \<Rightarrow> JSONParse \<Rightarrow> AnimationData \<Rightarrow> StatisticsDataFileInfo \<Rightarrow> AnimationData" where
  "loadStatisticsFile reader json s fileInfo =
     (if map_has (StatisticsDataFileInfo.filePath fileInfo) (loadedStatisticsFiles s) then s
      else finishStatisticsLoad reader json
             (logRead StatisticsDocument (StatisticsDataFileInfo.filePath fileInfo) s)
             (StatisticsDataFileInfo.filePath fileInfo))"

text \<open>
  \<open>Promise.all(files.map(file => this.loadStatisticsFile(file)))\<close>. Each call runs to
  its first suspension when it is made: it tests the cache and, unless the path is
  cached, issues its read. So every guard sees the cache as it was before the calls, and
  the reads are issued in the order of \<open>files\<close>. The rest of a call, from the parse to
  \<open>loadedStatisticsFiles.set\<close>, runs when its read completes, without suspension.
\<close>

definition loadAllStatisticsFiles ::
  "FileReader \<Rightarrow> JSONParse \<Rightarrow> StatisticsDataFileInfo list \<Rightarrow> AnimationData \<Rightarrow> AnimationData" where
  "loadAllStatisticsFiles reader json files s =
     (let issued = map StatisticsDataFileInfo.filePath
                     (filter (\<lambda>file. \<not> map_has (StatisticsDataFileInfo.filePath file)
                                          (loadedStatisticsFiles s)) files);
          s1 = s\<lparr>readLog := readLog s @ map (Pair StatisticsDocument) issued\<rparr>
      in foldl (finishStatisticsLoad reader json) s1 (completionOrder reader issued))"

subsection \<open>Activation\<close>

definition clearCaches :: "AnimationData \<Rightarrow> AnimationData" where
  "clearCaches s =
     s\<lparr>loadedEntityPathBatches := [], entityPathsById := [], loadedStatisticsFiles := []\<rparr>"

definition setActiveReplication ::
  "FileReader \<Rightarrow> JSONParse \<Rightarrow> jsnum \<Rightarrow> AnimationData \<Rightarrow> bool \<times> AnimationData" where
  "setActiveReplication reader json replicationId s =
     (case map_get replicationId (availableReplications s) of
        None \<Rightarrow> (False, s)
      | Some manifest \<Rightarrow>
          let s1 = clearCaches (s\<lparr>activeReplicationId := Some replicationId\<rparr>);
              s2 = foldl (loadEntityPathBatch reader json) s1 (entityPathDataFiles manifest)
          in (True, loadAllStatisticsFiles reader json (statisticsDataFiles manifest) s2))"

subsection \<open>Queries\<close>

definition getActiveReplicationId :: "AnimationData \<Rightarrow> jsnum option" where
  "getActiveReplicationId s = activeReplicationId s"

definition getActiveReplicationMetadata :: "AnimationData \<Rightarrow> ReplicationManifestMetadata option" where
  "getActiveReplicationMetadata s =
     (case activeReplicationId s of
        None \<Rightarrow> None
      | Some rid \<Rightarrow> map_option ReplicationManifestData.metadata
                      (map_get rid (availableReplications s)))"

text \<open>
  The fallback of \<open>getEntityPath\<close>: the first loaded batch, in the order of the
  \<open>Map\<close>, in which \<open>batch[entityId]\<close> is truthy.
\<close>

fun scanBatches :: "string \<Rightarrow> (string \<times> EntityPathBatch) list \<Rightarrow> property option" where
  "scanBatches entityId [] = None"
| "scanBatches entityId (e # rest) =
     (case getProperty (snd e) entityId of
        Some v \<Rightarrow> Some v
      | None \<Rightarrow> scanBatches entityId rest)"

definition getEntityPath :: "string \<Rightarrow> AnimationData \<Rightarrow> property option \<times> AnimationData" where
  "getEntityPath entityId s =
     (if map_has entityId (entityPathsById s) then (map_get entityId (entityPathsById s), s)
      else case scanBatches entityId (loadedEntityPathBatches s) of
             Some v \<Rightarrow> (Some v, s\<lparr>entityPathsById := map_set entityId v (entityPathsById s)\<rparr>)
           | None \<Rightarrow> (None, s))"

definition getLoadedEntityIds :: "AnimationData \<Rightarrow> string list" where
  "getLoadedEntityIds s = map fst (entityPathsById s)"

text \<open>\<open>path.type\<close> of a member of \<open>Object.prototype\<close> is \<open>undefined\<close>.\<close>

definition getEntitiesByType :: "string \<Rightarrow> AnimationData \<Rightarrow> (string \<times> property) list" where
  "getEntitiesByType ty s =
     foldl (\<lambda>result (id, v).
              case v of
                PathValue p \<Rightarrow> if EntityPath.type p = ty then map_set id v result else result
              | PrototypeMember _ \<Rightarrow> result)
       [] (entityPathsById s)"

text \<open>
  \<open>file.metadata.componentId === componentId\<close> compares an optional field with a
  string: a file without a component id matches no query.
\<close>

definition getStatistic :: "AnimationData \<Rightarrow> string \<Rightarrow> string \<Rightarrow> string \<Rightarrow> StatisticsFile option" where
  "getStatistic s ty cid metric =
     find (\<lambda>file. StatisticsMetadata.type (StatisticsFile.metadata file) = ty
                 \<and> StatisticsMetadata.metricName (StatisticsFile.metadata file) = metric
                 \<and> StatisticsMetadata.componentId (StatisticsFile.metadata file) = Some cid)
       (map snd (loadedStatisticsFiles s))"

text \<open>
  The loop of \<open>getStatisticValueAtTime\<close>, from index \<open>i\<close>. It returns the local
  \<open>ratio\<close> together with the value returned.
\<close>

function valueAtTimeLoop :: "TimeSeriesPoint list \<Rightarrow> jsnum \<Rightarrow> nat \<Rightarrow> (jsnum \<times> jsnum) option" where
  "valueAtTimeLoop points t i =
     (if int i < int (length points) - 1 then
        if js_le (time (points ! i)) t \<and> js_ge (time (points ! (i + 1))) t then
          let ratio = js_div (js_sub t (time (points ! i)))
                        (js_sub (time (points ! (i + 1))) (time (points ! i)))
          in Some (ratio,
                   js_add (value' (points ! i))
                     (js_mul ratio (js_sub (value' (points ! (i + 1))) (value' (points ! i)))))
        else valueAtTimeLoop points t (i + 1)
      else None)"
  by pat_completeness auto
termination
  by (relation "measure (\<lambda>(points, t, i). length points - i)") auto

declare valueAtTimeLoop.simps [simp del]

definition getStatisticValueAtTime ::
  "AnimationData \<Rightarrow> string \<Rightarrow> string \<Rightarrow> string \<Rightarrow> jsnum \<Rightarrow> jsnum option" where
  "getStatisticValueAtTime s ty cid metric t =
     (case getStatistic s ty cid metric of
        None \<Rightarrow> None
      | Some stat \<Rightarrow> map_option snd (valueAtTimeLoop (timeSeries stat) t 0))"

definition ratioAtTime ::
  "AnimationData \<Rightarrow> string \<Rightarrow> string \<Rightarrow> string \<Rightarrow> jsnum \<Rightarrow> jsnum option" where
  "ratioAtTime s ty cid metric t =
     (case getStatistic s ty cid metric of
        None \<Rightarrow> None
      | Some stat \<Rightarrow> map_option fst (valueAtTimeLoop (timeSeries stat) t 0))"

definition getStatisticSummary ::
  "AnimationData \<Rightarrow> string \<Rightarrow> string \<Rightarrow> string \<Rightarrow> StatisticsSummary option" where
  "getStatisticSummary s ty cid metric = map_option summary (getStatistic s ty cid metric)"

definition getStatisticTimeSeriesForRange ::
  "AnimationData \<Rightarrow> string \<Rightarrow> string \<Rightarrow> string \<Rightarrow> jsnum \<Rightarrow> jsnum \<Rightarrow> TimeSeriesPoint list" where
  "getStatisticTimeSeriesForRange s ty cid metric start end' =
     (case getStatistic s ty cid metric of
        None \<Rightarrow> []
      | Some stat \<Rightarrow>
          filter (\<lambda>point. js_ge (time point) start \<and> js_le (time point) end')
            (timeSeries stat))"

subsection \<open>Reachable states\<close>

text \<open>
  The states an instance can be in: built by the constructor, then changed by discovery
  (also one that throws),
  by activation, by \<open>getEntityPath\<close> (the only query that writes), and by a caller
  that registers a manifest in the public field \<open>availableReplications\<close>.
\<close>

inductive reachable :: "FileReader \<Rightarrow> JSONParse \<Rightarrow> AnimationData \<Rightarrow> bool"
  for reader :: FileReader and json :: JSONParse where
  constructed: "reachable reader json AnimationData_new"
| discovered: "reachable reader json s \<Longrightarrow>
     reachable reader json (snd (initializeOrDiscoverReplications reader json s))"
| activated: "reachable reader json s \<Longrightarrow>
     reachable reader json (snd (setActiveReplication reader json replicationId s))"
| queried: "reachable reader json s \<Longrightarrow> reachable reader json (snd (getEntityPath entityId s))"
| registered: "reachable reader json s \<Longrightarrow>
     reachable reader json
       (s\<lparr>availableReplications := map_set replicationId manifest (availableReplications s)\<rparr>)"

section \<open>Notions of the specification\<close>

text \<open>
  The statements about the statistics queries are phrased with the notions below: an
  adjacent pair that brackets a time, the first such pair, the interpolation formula
  evaluated with the arithmetic of JavaScript numbers, and membership in a closed range.
\<close>

definition brackets :: "TimeSeriesPoint list \<Rightarrow> jsnum \<Rightarrow> nat \<Rightarrow> bool" where
  "brackets points t i =
     (i + 1 < length points \<and> js_le (time (points ! i)) t
      \<and> js_le t (time (points ! (i + 1))))"

definition firstBracket :: "TimeSeriesPoint list \<Rightarrow> jsnum \<Rightarrow> nat \<Rightarrow> bool" where
  "firstBracket points t i = (brackets points t i \<and> list_all (\<lambda>j. \<not> brackets points t j) [0..<i])"

definition ratioOf :: "TimeSeriesPoint list \<Rightarrow> jsnum \<Rightarrow> nat \<Rightarrow> jsnum" where
  "ratioOf points t i =
     js_div (js_sub t (time (points ! i)))
       (js_sub (time (points ! (i + 1))) (time (points ! i)))"

definition linearInterpolation :: "TimeSeriesPoint list \<Rightarrow> jsnum \<Rightarrow> nat \<Rightarrow> jsnum" where
  "linearInterpolation points t i =
     js_add (value' (points ! i))
       (js_mul (ratioOf points t i)
          (js_sub (value' (points ! (i + 1))) (value' (points ! i))))"

definition inRange :: "jsnum \<Rightarrow> jsnum \<Rightarrow> TimeSeriesPoint \<Rightarrow> bool" where
  "inRange start end' p = (js_le start (time p) \<and> js_le (time p) end')"

text \<open>
  A finite number that is a double, as every finite number of a JSON document is; and
  the strict order of numbers.
\<close>

definition finiteDouble :: "jsnum \<Rightarrow> bool" where
  "finiteDouble v = (case v of Fin r \<Rightarrow> isDouble r | _ \<Rightarrow> False)"

definition js_lt :: "jsnum \<Rightarrow> jsnum \<Rightarrow> bool" where
  "js_lt a b = js_gt b a"

definition isFinite :: "jsnum \<Rightarrow> bool" where
  "isFinite v = (case v of Fin _ \<Rightarrow> True | _ \<Rightarrow> False)"

text \<open>
  A time series in ascending order of time, and one with strictly increasing
  timestamps.
\<close>

definition ascending :: "TimeSeriesPoint list \<Rightarrow> bool" where
  "ascending points = sorted_wrt js_le (map time points)"

definition strictlyAscending :: "TimeSeriesPoint list \<Rightarrow> bool" where
  "strictlyAscending points = sorted_wrt js_lt (map time points)"

text \<open>
  The difference of two sample values is exact: both are finite, the later one is a
  double and so is their difference, so that the subtraction does not round.
\<close>

definition exactDifference :: "jsnum \<Rightarrow> jsnum \<Rightarrow> bool" where
  "exactDifference u w =
     (case (u, w) of (Fin p, Fin q) \<Rightarrow> isDouble q \<and> isDouble (q - p) | _ \<Rightarrow> False)"

text \<open>
  The last-write-wins union of the loaded batches, in load order: the entry of an
  entity id is the last one among the entries of all cached batches.
\<close>

definition unionOfBatches :: "(string \<times> EntityPathBatch) list \<Rightarrow> string \<Rightarrow> EntityPath option" where
  "unionOfBatches cache = map_of (rev (concat (map snd cache)))"

text \<open>
  A well-behaved accessor completes every read that is in flight, in some order: the
  completion order is a permutation of the reads issued.
\<close>

definition completesAll :: "FileReader \<Rightarrow> bool" where
  "completesAll reader = (\<forall>paths. mset (completionOrder reader paths) = mset paths)"

text \<open>Two states with the same entity-path batch cache, entity index and statistics cache.\<close>

definition sameCaches :: "AnimationData \<Rightarrow> AnimationData \<Rightarrow> bool" where
  "sameCaches a b =
     (loadedEntityPathBatches a = loadedEntityPathBatches b
      \<and> entityPathsById a = entityPathsById b
      \<and> loadedStatisticsFiles a = loadedStatisticsFiles b)"

text \<open>The entity index is the union of the cached batches.\<close>

definition indexConsistent :: "AnimationData \<Rightarrow> bool" where
  "indexConsistent s =
     (\<forall>entityId. map_of (entityPathsById s) entityId
        = map_option PathValue (unionOfBatches (loadedEntityPathBatches s) entityId))"

text \<open>The reads made between a state and a later one.\<close>

definition newReads :: "AnimationData \<Rightarrow> AnimationData \<Rightarrow> (document \<times> string) list" where
  "newReads s s' = drop (length (readLog s)) (readLog s')"

text \<open>
  Discovery. An entry of the listing is eligible when it is a directory whose name starts
  with \<open>rep_\<close>: this prefix test is the naming convention that the source checks.
  \<open>manifestOf\<close> is the manifest an entry contributes, if any; \<open>register\<close> adds a
  manifest to the registry under its declared replication number; \<open>readsOf\<close> selects the
  paths read for one type of document; \<open>layoutFetch\<close> and \<open>configFetch\<close> give the
  path of the shared document that an iteration fetches, if it fetches one.
\<close>

definition eligible :: "FileListItem \<Rightarrow> bool" where
  "eligible item = (isDirectory item \<and> startsWith (FileListItem.name item) ''rep_'')"

definition manifestOf :: "FileReader \<Rightarrow> JSONParse \<Rightarrow> FileListItem \<Rightarrow> ReplicationManifestData option" where
  "manifestOf reader json item =
     (if eligible item
      then (case fetchAndParseJSON reader (parseManifest json)
                   (manifestPathOf (FileListItem.name item)) of
              Some (ManifestObject manifest) \<Rightarrow> Some manifest
            | _ \<Rightarrow> None)
      else None)"

text \<open>
  The iteration for an entry throws when the entry is eligible and its manifest file
  parses to a truthy value without \<open>metadata\<close>. \<open>scanned\<close> is the part of the listing
  that the loop gets through: the entries up to the first one that throws, that one
  included. \<open>discoverStep\<close> is the state after one iteration.
\<close>

definition throwsAt :: "FileReader \<Rightarrow> JSONParse \<Rightarrow> FileListItem \<Rightarrow> bool" where
  "throwsAt reader json item =
     (eligible item
      \<and> fetchAndParseJSON reader (parseManifest json) (manifestPathOf (FileListItem.name item))
          = Some WithoutMetadata)"

fun scanned :: "FileReader \<Rightarrow> JSONParse \<Rightarrow> FileListItem list \<Rightarrow> FileListItem list" where
  "scanned reader json [] = []"
| "scanned reader json (item # items) =
     (if throwsAt reader json item then [item] else item # scanned reader json items)"

definition discoverStep ::
  "FileReader \<Rightarrow> JSONParse \<Rightarrow> AnimationData \<Rightarrow> FileListItem \<Rightarrow> AnimationData" where
  "discoverStep reader json s item = snd (discoverItem reader json s item)"

definition register :: "(jsnum \<times> ReplicationManifestData) list \<Rightarrow> ReplicationManifestData
    \<Rightarrow> (jsnum \<times> ReplicationManifestData) list" where
  "register registry manifest =
     map_set (ReplicationManifestMetadata.replication (ReplicationManifestData.metadata manifest))
       manifest registry"

definition readsOf :: "document \<Rightarrow> (document \<times> string) list \<Rightarrow> string list" where
  "readsOf doc entries = map snd (filter (\<lambda>entry. fst entry = doc) entries)"

definition layoutFetch :: "FileReader \<Rightarrow> JSONParse \<Rightarrow> AnimationData \<Rightarrow> FileListItem \<Rightarrow> string option" where
  "layoutFetch reader json s item =
     (case manifestOf reader json item of
        None \<Rightarrow> None
      | Some manifest \<Rightarrow>
          if modelLayout s = None \<and> modelLayoutPath (ReplicationManifestData.metadata manifest) \<noteq> []
          then Some (modelLayoutPath (ReplicationManifestData.metadata manifest)) else None)"

definition configFetch :: "FileReader \<Rightarrow> JSONParse \<Rightarrow> AnimationData \<Rightarrow> FileListItem \<Rightarrow> string option" where
  "configFetch reader json s item =
     (case manifestOf reader json item of
        None \<Rightarrow> None
      | Some manifest \<Rightarrow>
          if sharedVisualConfig s = None
             \<and> sharedVisualConfigPath (ReplicationManifestData.metadata manifest) \<noteq> []
          then Some (sharedVisualConfigPath (ReplicationManifestData.metadata manifest)) else None)"

text \<open>
  What the entity index holds in a reachable state. The entries that are entity paths
  are the union of the cached batches; any other entry is a member of
  \<open>Object.prototype\<close> stored under its own name.
\<close>

fun pathOf :: "property option \<Rightarrow> EntityPath option" where
  "pathOf (Some (PathValue p)) = Some p"
| "pathOf _ = None"

definition indexRefinesBatches :: "AnimationData \<Rightarrow> bool" where
  "indexRefinesBatches s =
     (\<forall>entityId.
        unionOfBatches (loadedEntityPathBatches s) entityId
          = pathOf (map_of (entityPathsById s) entityId)
        \<and> (\<forall>k. map_of (entityPathsById s) entityId = Some (PrototypeMember k) \<longrightarrow>
               k = entityId \<and> entityId \<in> set objectPrototypeKeys))"

section \<open>A sample study\<close>

text \<open>
  A study with two well-formed replications (numbers 1 and 3), a replication directory
  whose manifest is not valid JSON (\<open>rep_002\<close>), a plain file and a directory that
  does not follow the naming convention. File contents are short tokens, and the
  decoders map each token to the document it stands for. Concurrent reads of the sample
  accessor complete in the reverse of the order in which they were issued.
\<close>

definition exampleEntityPath1 :: EntityPath where
  "exampleEntityPath1 =
     \<lparr>EntityPath.type = ''Customer'',
      path = [\<lparr>clock = Fin 0, x = Fin 1, y = Fin 2, event = None, state = ''arrive'',
               componentId = None, attributes = None\<rparr>]\<rparr>"

definition exampleEntityPath2 :: EntityPath where
  "exampleEntityPath2 = \<lparr>EntityPath.type = ''Order'', path = []\<rparr>"

definition exampleBatch1 :: EntityPathBatch where
  "exampleBatch1 = [(''e1'', exampleEntityPath1), (''e2'', exampleEntityPath2)]"

definition exampleBatch2 :: EntityPathBatch where
  "exampleBatch2 = [(''e3'', exampleEntityPath2)]"

definition exampleSeries :: "TimeSeriesPoint list" where
  "exampleSeries = [\<lparr>time = Fin 0, value' = Fin 10\<rparr>, \<lparr>time = Fin 10, value' = Fin 20\<rparr>]"

definition exampleStatistics :: "jsnum \<Rightarrow> TimeSeriesPoint list \<Rightarrow> StatisticsFile" where
  "exampleStatistics rid series =
     \<lparr>StatisticsFile.metadata =
        \<lparr>StatisticsMetadata.type = ''activity_metric'', componentId = Some ''act1'',
         metricName = ''queueLength'', simulationId = ''sim'', replication = rid,
         timeStart = Fin 0, timeEnd = Fin 10, timeUnit = ''min''\<rparr>,
      summary = \<lparr>min' = Fin 10, max' = Fin 20, mean = Fin 15, median = Fin 15, stdDev = Fin 5, count' = Fin 2\<rparr>,
      timeSeries = series\<rparr>"

definition exampleManifest :: "jsnum \<Rightarrow> string \<Rightarrow> string \<Rightarrow> ReplicationManifestData" where
  "exampleManifest rid batchPath statisticsPath =
     \<lparr>ReplicationManifestData.metadata =
        \<lparr>formatVersion = ''1.0'', simulationId = ''sim'',
         ReplicationManifestMetadata.replication = rid, name = Some ''run'', duration = Fin 10,
         ReplicationManifestMetadata.timeUnit = ''min'', modelLayoutPath = ''layout.json'',
         sharedVisualConfigPath = ''visual.json'', backgroundSvgPath = ''bg.svg''\<rparr>,
      entityPathDataFiles =
        [\<lparr>EntityPathDataFileInfo.filePath = batchPath, entryTimeStart = Fin 0, entryTimeEnd = Fin 10,
          entityCount = None\<rparr>],
      statisticsDataFiles =
        [\<lparr>StatisticsDataFileInfo.type = ''activity_metric'',
          StatisticsDataFileInfo.componentId = Some ''act1'',
          StatisticsDataFileInfo.metricName = ''queueLength'',
          StatisticsDataFileInfo.filePath = statisticsPath,
          StatisticsDataFileInfo.timeStart = Some (Fin 0),
          StatisticsDataFileInfo.timeEnd = Some (Fin 10)\<rparr>]\<rparr>"

definition exampleListing :: "FileListItem list" where
  "exampleListing =
     [\<lparr>FileListItem.name = ''notes.txt'', FileListItem.path = ''replications/notes.txt'',
       isDirectory = False\<rparr>,
      \<lparr>FileListItem.name = ''rep_002'', FileListItem.path = ''replications/rep_002'',
       isDirectory = True\<rparr>,
      \<lparr>FileListItem.name = ''archive'', FileListItem.path = ''replications/archive'',
       isDirectory = True\<rparr>,
      \<lparr>FileListItem.name = ''rep_001'', FileListItem.path = ''replications/rep_001'',
       isDirectory = True\<rparr>,
      \<lparr>FileListItem.name = ''rep_003'', FileListItem.path = ''replications/rep_003'',
       isDirectory = True\<rparr>]"

definition exampleReader :: FileReader where
  "exampleReader =
     \<lparr>readFileAsText =
        map_of [(manifestPathOf ''rep_001'', ''manifest 1''),
                (manifestPathOf ''rep_002'', ''{ not json''),
                (manifestPathOf ''rep_003'', ''manifest 3''),
                (''layout.json'', ''layout''), (''visual.json'', ''visual''),
                (''r1/paths.json'', ''batch 1''), (''r3/paths.json'', ''batch 2''),
                (''r1/queue.json'', ''statistics 1''), (''r3/queue.json'', ''statistics 3'')],
      listDirectoryContents = (\<lambda>p. if p = ''replications'' then Some exampleListing else None),
      completionOrder = rev\<rparr>"

definition exampleJSON :: JSONParse where
  "exampleJSON =
     \<lparr>parseManifest =
        map_of [(''manifest 1'',
                 ManifestObject (exampleManifest (Fin 1) ''r1/paths.json'' ''r1/queue.json'')),
                (''manifest 3'',
                 ManifestObject (exampleManifest (Fin 3) ''r3/paths.json'' ''r3/queue.json''))],
      parseModelLayout = map_of [(''layout'', ModelLayout ''layout'')],
      parseSharedVisualConfig =
        map_of [(''visual'', \<lparr>theme = ''dark'', loop = True, speedMultiplier = Fin 1\<rparr>)],
      parseEntityPathBatch = map_of [(''batch 1'', exampleBatch1), (''batch 2'', exampleBatch2)],
      parseStatisticsFile =
        map_of [(''statistics 1'', exampleStatistics (Fin 1) exampleSeries),
                (''statistics 3'', exampleStatistics (Fin 3) [])]\<rparr>"

definition exampleDiscovered :: AnimationData where
  "exampleDiscovered =
     snd (initializeOrDiscoverReplications exampleReader exampleJSON AnimationData_new)"

definition exampleActive :: AnimationData where
  "exampleActive = snd (setActiveReplication exampleReader exampleJSON (Fin 1) exampleDiscovered)"

definition exampleSwitched :: AnimationData where
  "exampleSwitched = snd (setActiveReplication exampleReader exampleJSON (Fin 3) exampleActive)"

definition exampleReactivated :: AnimationData where
  "exampleReactivated = snd (setActiveReplication exampleReader exampleJSON (Fin 1) exampleActive)"

text \<open>
  Variants of the sample study: one in which the manifest of replication 1 names a model
  layout file that does not exist; an accessor that cannot list the \<open>replications\<close>
  directory; and an accessor in which the manifest file of \<open>rep_002\<close> holds the JSON
  text \<open>{}\<close>, which parses to an object without \<open>metadata\<close>.
\<close>

definition exampleManifestMissingLayout :: ReplicationManifestData where
  "exampleManifestMissingLayout =
     (exampleManifest (Fin 1) ''r1/paths.json'' ''r1/queue.json'')
       \<lparr>ReplicationManifestData.metadata :=
          (ReplicationManifestData.metadata
             (exampleManifest (Fin 1) ''r1/paths.json'' ''r1/queue.json''))
            \<lparr>modelLayoutPath := ''missing.json''\<rparr>\<rparr>"

definition examplePartialJSON :: JSONParse where
  "examplePartialJSON =
     exampleJSON
       \<lparr>parseManifest :=
          map_of [(''manifest 1'', ManifestObject exampleManifestMissingLayout),
                  (''manifest 3'',
                   ManifestObject (exampleManifest (Fin 3) ''r3/paths.json'' ''r3/queue.json''))]\<rparr>"

definition examplePartial :: AnimationData where
  "examplePartial =
     snd (initializeOrDiscoverReplications exampleReader examplePartialJSON AnimationData_new)"

definition exampleUnlistable :: FileReader where
  "exampleUnlistable = exampleReader\<lparr>listDirectoryContents := (\<lambda>p. None)\<rparr>"

definition exampleEmptyObjectReader :: FileReader where
  "exampleEmptyObjectReader =
     exampleReader
       \<lparr>readFileAsText :=
          (readFileAsText exampleReader)
            (''replications/rep_002/animation_manifest_rep_002.json'' \<mapsto> ''{}'')\<rparr>"

definition exampleEmptyObjectJSON :: JSONParse where
  "exampleEmptyObjectJSON =
     exampleJSON
       \<lparr>parseManifest := (parseManifest exampleJSON)(''{}'' \<mapsto> WithoutMetadata)\<rparr>"

text \<open>
  Series whose numbers are the doubles nearest to the decimal numerals of a JSON
  document: \<open>[{time: 0, value: 0.2}, {time: 10, value: 0.9}]\<close>, then
  \<open>[{time: 0, value: 0}, {time: 3, value: 1}]\<close>, and a series with the values
  \<open>-2^1023\<close> and \<open>2^1023\<close>, whose difference overflows, and a series whose
  last timestamp was written \<open>1e400\<close>, which reads as \<open>Infinity\<close>.
\<close>

definition exampleDecimalSeries :: "TimeSeriesPoint list" where
  "exampleDecimalSeries =
     [\<lparr>time = Fin 0, value' = roundDouble (2 / 10)\<rparr>,
      \<lparr>time = Fin 10, value' = roundDouble (9 / 10)\<rparr>]"

definition exampleThirdSeries :: "TimeSeriesPoint list" where
  "exampleThirdSeries = [\<lparr>time = Fin 0, value' = Fin 0\<rparr>, \<lparr>time = Fin 3, value' = Fin 1\<rparr>]"

definition exampleHugeSeries :: "TimeSeriesPoint list" where
  "exampleHugeSeries =
     [\<lparr>time = Fin 0, value' = Fin (- (2 ^ 1023))\<rparr>, \<lparr>time = Fin 10, value' = Fin (2 ^ 1023)\<rparr>]"

definition exampleInfiniteSeries :: "TimeSeriesPoint list" where
  "exampleInfiniteSeries =
     [\<lparr>time = Fin 0, value' = Fin 1\<rparr>, \<lparr>time = PosInf, value' = Fin 2\<rparr>]"

text \<open>An instance that holds one statistics file with the given series.\<close>

definition exampleWithSeries :: "TimeSeriesPoint list \<Rightarrow> AnimationData" where
  "exampleWithSeries series =
     AnimationData_new
       \<lparr>loadedStatisticsFiles := [(''queue.json'', exampleStatistics (Fin 1) series)]\<rparr>"

text \<open>The sample study after the query \<open>getEntityPath("toString")\<close>.\<close>

definition exampleQueried :: AnimationData where
  "exampleQueried = snd (getEntityPath ''toString'' exampleActive)"

section \<open>Properties of double arithmetic\<close>

text \<open>
  The facts for evaluating a rounding of a numeral by rewriting.
\<close>

lemmas double_eval =
  roundDouble_def exponentOf_def binadeUp.simps binadeDown.simps roundHalfEven_def pow2_def Let_def

lemma floor_rat_numeral [simp]: "\<lfloor>numeral a / numeral b :: rat\<rfloor> = numeral a div numeral b"
  by (metis floor_divide_of_int_eq of_int_numeral)

lemma floor_rat_one_numeral [simp]: "\<lfloor>1 / numeral b :: rat\<rfloor> = 1 div numeral b"
  by (metis floor_divide_of_int_eq of_int_numeral of_int_1)

lemma roundDouble_0 [simp]: "roundDouble 0 = Fin 0"
  by (simp add: roundDouble_def)

lemma roundDouble_1 [simp]: "roundDouble 1 = Fin 1"
  by (simp add: double_eval)

lemma roundDouble_not_NaN [simp]: "roundDouble v \<noteq> NaN"
  by (simp add: roundDouble_def Let_def)

lemma roundDouble_minus: "roundDouble (- v) = js_negate (roundDouble v)"
  by (simp add: roundDouble_def Let_def)

lemma pow2_pos [simp]: "0 < pow2 e"
  by (simp add: pow2_def)

lemma pow2_not_le_0 [simp]: "\<not> pow2 e \<le> 0"
  using pow2_pos[of e] by (simp only: not_le)

lemma pow2_nonneg [simp]: "0 \<le> pow2 e"
  using pow2_pos[of e] by (rule less_imp_le)

lemma abs_pow2 [simp]: "\<bar>pow2 e\<bar> = pow2 e"
  by (rule abs_of_nonneg) simp

lemma pow2_add: "pow2 (a + b) = pow2 a * pow2 b"
  by (simp add: pow2_def power_int_add)

lemma pow2_Suc: "pow2 (e + 1) = pow2 e * 2"
  by (simp add: pow2_def power_int_add)

lemma pow2_pred: "pow2 (e - 1) * 2 = pow2 e"
  using pow2_Suc[of "e - 1"] by simp

lemma pow2_mono: "a \<le> b \<Longrightarrow> pow2 a \<le> pow2 b"
  by (simp add: pow2_def power_int_increasing)

lemma pow2_nonneg_int: "0 \<le> e \<Longrightarrow> pow2 e = of_int (2 ^ nat e)"
  by (simp add: pow2_def power_int_nonneg_exp)

lemma binadeUp_le: "1 \<le> a \<Longrightarrow> pow2 (binadeUp fuel a e) \<le> a * pow2 e"
proof (induction fuel a e rule: binadeUp.induct)
  case (1 fuel a e)
  show ?case
  proof (cases "fuel = 0 \<or> a < 2")
    case True
    with "1.prems" have "pow2 e * 1 \<le> pow2 e * a"
      by (intro mult_left_mono) simp_all
    with True show ?thesis
      by (subst binadeUp.simps) (simp add: mult.commute)
  next
    case False
    with "1.prems" have "pow2 (binadeUp (fuel - 1) (a / 2) (e + 1)) \<le> a / 2 * pow2 (e + 1)"
      by (intro "1.IH") auto
    also have "\<dots> = a * pow2 e" by (simp add: pow2_Suc)
    finally show ?thesis using False by (subst binadeUp.simps) simp
  qed
qed

lemma binadeUp_ge: "e \<le> binadeUp fuel a e"
proof (induction fuel a e rule: binadeUp.induct)
  case (1 fuel a e)
  show ?case
  proof (cases "fuel = 0 \<or> a < 2")
    case True
    then show ?thesis by (subst binadeUp.simps) simp
  next
    case False
    with "1.IH" have "e + 1 \<le> binadeUp (fuel - 1) (a / 2) (e + 1)" by simp
    with False show ?thesis by (subst binadeUp.simps) simp
  qed
qed

lemma binadeDown_le:
  "0 < a \<Longrightarrow> pow2 (binadeDown fuel a e) \<le> a * pow2 e \<or> binadeDown fuel a e = e - int fuel"
proof (induction fuel a e rule: binadeDown.induct)
  case (1 fuel a e)
  show ?case
  proof (cases "fuel = 0 \<or> 1 \<le> a")
    case True
    show ?thesis
    proof (cases "fuel = 0")
      case True
      then show ?thesis by (subst (1 2) binadeDown.simps) simp
    next
      case False
      with True have a: "1 \<le> a" by simp
      then have "pow2 e * 1 \<le> pow2 e * a" by (intro mult_left_mono) simp_all
      with a show ?thesis by (subst (1 2) binadeDown.simps) (simp add: mult.commute)
    qed
  next
    case False
    with "1.prems" have "pow2 (binadeDown (fuel - 1) (a * 2) (e - 1)) \<le> a * 2 * pow2 (e - 1)
        \<or> binadeDown (fuel - 1) (a * 2) (e - 1) = e - 1 - int (fuel - 1)"
      by (intro "1.IH") auto
    moreover have "a * 2 * pow2 (e - 1) = a * pow2 e"
      using pow2_pred[of e] by (simp add: mult.commute mult.left_commute)
    moreover from False have "e - 1 - int (fuel - 1) = e - int fuel" by simp
    ultimately show ?thesis using False by (subst (1 2) binadeDown.simps) simp
  qed
qed

lemma binadeDown_ge: "e - int fuel \<le> binadeDown fuel a e"
proof (induction fuel a e rule: binadeDown.induct)
  case (1 fuel a e)
  show ?case
  proof (cases "fuel = 0 \<or> 1 \<le> a")
    case True
    then show ?thesis by (subst binadeDown.simps) auto
  next
    case False
    with "1.IH" have "e - 1 - int (fuel - 1) \<le> binadeDown (fuel - 1) (a * 2) (e - 1)" by simp
    with False show ?thesis by (subst binadeDown.simps) simp
  qed
qed

lemma exponentOf_ge: "- 1022 \<le> exponentOf a"
  using binadeUp_ge[of 0 1023 a] binadeDown_ge[of 0 1022 a]
  by (simp add: exponentOf_def)

lemma exponentOf_le: "0 < a \<Longrightarrow> pow2 (exponentOf a) \<le> a \<or> exponentOf a = - 1022"
  using binadeUp_le[of a 1023 0] binadeDown_le[of a 1022 0]
  by (auto simp: exponentOf_def pow2_def[of 0])

lemma ulp_le: "pow2 (- 1074) \<le> a \<Longrightarrow> pow2 (exponentOf a - 52) \<le> a"
proof -
  assume a: "pow2 (- 1074) \<le> a"
  have "0 < pow2 (- 1074)" by (rule pow2_pos)
  with a have pos: "0 < a" by linarith
  from exponentOf_le[OF pos] show ?thesis
  proof
    assume "pow2 (exponentOf a) \<le> a"
    moreover have "pow2 (exponentOf a - 52) \<le> pow2 (exponentOf a)" by (rule pow2_mono) simp
    ultimately show ?thesis by simp
  next
    assume "exponentOf a = - 1022"
    with a show ?thesis by simp
  qed
qed

lemma roundHalfEven_ge: "\<lfloor>q\<rfloor> \<le> roundHalfEven q"
  by (simp add: roundHalfEven_def Let_def)

lemma roundDouble_nonzero:
  assumes "pow2 (- 1074) \<le> \<bar>v\<bar>"
  shows "roundDouble v \<noteq> Fin 0"
proof -
  let ?a = "\<bar>v\<bar>"
  let ?ulp = "pow2 (exponentOf ?a - 52)"
  let ?n = "roundHalfEven (?a / ?ulp)"
  have "0 < pow2 (- 1074)" by (rule pow2_pos)
  with assms have v: "v \<noteq> 0" by auto
  have "?ulp \<le> ?a" using assms by (rule ulp_le)
  then have "1 \<le> ?a / ?ulp" by (simp add: le_divide_eq)
  then have "1 \<le> \<lfloor>?a / ?ulp\<rfloor>" by (simp add: le_floor_iff)
  with roundHalfEven_ge[of "?a / ?ulp"] have "1 \<le> ?n" by linarith
  then have "(1::rat) \<le> of_int ?n" by simp
  then have "0 < of_int ?n * ?ulp" by (simp add: zero_less_mult_iff)
  then show ?thesis
    using v by (auto simp: roundDouble_def Let_def)
qed

lemma roundDouble_grid:
  assumes "roundDouble v = Fin w"
  shows "\<exists>m :: int. w = of_int m * pow2 (- 1074)"
proof (cases "v = 0")
  case True
  with assms have "w = 0" by (simp add: roundDouble_def)
  then have "w = of_int 0 * pow2 (- 1074)" by simp
  then show ?thesis by blast
next
  case False
  let ?E = "exponentOf \<bar>v\<bar>"
  let ?n = "roundHalfEven (\<bar>v\<bar> / pow2 (?E - 52))"
  from assms False have w: "w = of_int ?n * pow2 (?E - 52) \<or> w = - (of_int ?n * pow2 (?E - 52))"
    by (auto simp: roundDouble_def Let_def split: if_splits)
  have ge: "0 \<le> ?E + 1022" using exponentOf_ge[of "\<bar>v\<bar>"] by simp
  have "pow2 (?E - 52) = pow2 ((?E + 1022) + (- 1074))" by simp
  also have "\<dots> = pow2 (?E + 1022) * pow2 (- 1074)" by (rule pow2_add)
  also have "\<dots> = of_int (2 ^ nat (?E + 1022)) * pow2 (- 1074)"
    using ge by (simp only: pow2_nonneg_int)
  finally have u: "pow2 (?E - 52) = of_int (2 ^ nat (?E + 1022)) * pow2 (- 1074)" .
  from w show ?thesis
  proof
    assume "w = of_int ?n * pow2 (?E - 52)"
    then have "w = of_int (?n * 2 ^ nat (?E + 1022)) * pow2 (- 1074)"
      by (simp only: u of_int_mult mult.assoc)
    then show ?thesis by blast
  next
    assume "w = - (of_int ?n * pow2 (?E - 52))"
    then have "w = of_int (- (?n * 2 ^ nat (?E + 1022))) * pow2 (- 1074)"
      by (simp only: u of_int_mult of_int_minus mult.assoc mult_minus_left)
    then show ?thesis by blast
  qed
qed

lemma double_difference_nonzero:
  assumes "isDouble a" "isDouble b" "a \<noteq> b"
  shows "roundDouble (b - a) \<noteq> Fin 0"
proof -
  from assms(1,2) obtain m n :: int
    where a: "a = of_int m * pow2 (- 1074)" and b: "b = of_int n * pow2 (- 1074)"
    using roundDouble_grid unfolding isDouble_def by blast
  from assms(3) a b have "n - m \<noteq> 0" by auto
  then have "1 \<le> \<bar>n - m\<bar>" by simp
  then have "(1::rat) \<le> of_int \<bar>n - m\<bar>" by (simp only: of_int_1_le_iff)
  then have "1 * pow2 (- 1074) \<le> of_int \<bar>n - m\<bar> * pow2 (- 1074)"
    using pow2_pos[of "- 1074"] by (intro mult_right_mono) (simp_all only: less_imp_le)
  moreover have "b - a = of_int (n - m) * pow2 (- 1074)"
    by (simp only: a b of_int_diff left_diff_distrib)
  then have "\<bar>b - a\<bar> = of_int \<bar>n - m\<bar> * pow2 (- 1074)"
    using pow2_pos[of "- 1074"] by (simp add: abs_mult)
  ultimately have "pow2 (- 1074) \<le> \<bar>b - a\<bar>" by simp
  then show ?thesis by (rule roundDouble_nonzero)
qed

text \<open>Subtraction of a finite number from itself, and of distinct doubles.\<close>

lemma js_sub_Fin [simp]: "js_sub (Fin a) (Fin b) = roundDouble (a - b)"
  by (simp add: js_sub_def)

lemma js_sub_distinct:
  "isDouble a \<Longrightarrow> isDouble b \<Longrightarrow> a \<noteq> b \<Longrightarrow> js_sub (Fin b) (Fin a) \<noteq> Fin 0"
  by (simp add: double_difference_nonzero)

lemma js_div_self: "d \<noteq> Fin 0 \<Longrightarrow> js_div d d = (case d of Fin _ \<Rightarrow> Fin 1 | _ \<Rightarrow> NaN)"
  by (cases d) simp_all

lemma js_div_zero: "d \<noteq> Fin 0 \<Longrightarrow> d \<noteq> NaN \<Longrightarrow> js_div (Fin 0) d = Fin 0"
  by (cases d) simp_all

lemma js_le_trans: "js_le a b \<Longrightarrow> js_le b c \<Longrightarrow> js_le a c"
  by (cases a; cases b; cases c) auto

lemma js_le_refl: "js_le a b \<Longrightarrow> js_le a a \<and> js_le b b"
  by (cases a; cases b) auto

lemma js_le_total: "js_le a a \<Longrightarrow> js_le b b \<Longrightarrow> js_le a b \<or> js_le b a"
  by (cases a; cases b) auto

section \<open>Statistics queries\<close>

lemma loop_step:
  "valueAtTimeLoop points t i =
     (if brackets points t i then Some (ratioOf points t i, linearInterpolation points t i)
      else if i + 1 < length points then valueAtTimeLoop points t (i + 1) else None)"
  by (subst valueAtTimeLoop.simps)
     (auto simp: brackets_def js_ge_def ratioOf_def linearInterpolation_def Let_def)

lemma loop_first:
  "brackets points t k \<Longrightarrow> i \<le> k \<Longrightarrow> \<forall>j. i \<le> j \<and> j < k \<longrightarrow> \<not> brackets points t j \<Longrightarrow>
   valueAtTimeLoop points t i = Some (ratioOf points t k, linearInterpolation points t k)"
proof (induction "k - i" arbitrary: i)
  case 0
  then have "i = k" by simp
  with 0 show ?case by (subst loop_step) simp
next
  case (Suc d)
  then have lt: "i < k" and nb: "\<not> brackets points t i" by auto
  from Suc.prems(1) have "k + 1 < length points" by (simp add: brackets_def)
  with lt have "i + 1 < length points" by simp
  moreover have "valueAtTimeLoop points t (i + 1)
      = Some (ratioOf points t k, linearInterpolation points t k)"
    using Suc.hyps(1)[of "i + 1"] Suc.hyps(2) Suc.prems lt by auto
  ultimately show ?case using nb by (subst loop_step) simp
qed

lemma loop_none:
  "(valueAtTimeLoop points t i = None) = (\<forall>j\<ge>i. \<not> brackets points t j)"
proof (induction points t i rule: valueAtTimeLoop.induct)
  case (1 points t i)
  show ?case
  proof (cases "brackets points t i")
    case True
    then show ?thesis by (subst loop_step) auto
  next
    case nb: False
    show ?thesis
    proof (cases "i + 1 < length points")
      case True
      then have "int i < int (length points) - 1" by simp
      with nb have ih: "(valueAtTimeLoop points t (i + 1) = None) = (\<forall>j\<ge>i + 1. \<not> brackets points t j)"
        using "1.IH" by (simp add: brackets_def js_ge_def)
      have "(\<forall>j\<ge>i. \<not> brackets points t j) = (\<forall>j\<ge>i + 1. \<not> brackets points t j)"
        using nb by (metis Suc_eq_plus1 Suc_leI le_neq_implies_less order.strict_implies_order Suc_leD)
      with ih nb True show ?thesis by (subst loop_step) simp
    next
      case False
      then have "\<forall>j\<ge>i. \<not> brackets points t j" by (simp add: brackets_def)
      with nb False show ?thesis by (subst loop_step) simp
    qed
  qed
qed

lemma brackets_Cons: "brackets (p # ps) t (Suc i) = brackets ps t i"
  by (simp add: brackets_def)

lemma ascending_nth:
  "ascending ps \<Longrightarrow> i < j \<Longrightarrow> j < length ps \<Longrightarrow> js_le (time (ps ! i)) (time (ps ! j))"
  using sorted_wrt_nth_less[of js_le "map time ps" i j] by (simp add: ascending_def)

lemma ascending_Cons: "ascending (p # ps) \<Longrightarrow> ascending ps"
  by (simp add: ascending_def)

lemma sorted_bracket_exists:
  "ascending ps \<Longrightarrow> 2 \<le> length ps \<Longrightarrow> js_le (time (hd ps)) t \<Longrightarrow>
   js_le t (time (last ps)) \<Longrightarrow> \<exists>i. brackets ps t i"
proof (induction ps)
  case Nil
  then show ?case by simp
next
  case (Cons p ps)
  then obtain q qs where ps: "ps = q # qs" by (cases ps) auto
  show ?case
  proof (cases "js_le t (time q)")
    case True
    with Cons.prems ps have "brackets (p # ps) t 0" by (simp add: brackets_def)
    then show ?thesis by blast
  next
    case False
    with Cons.prems ps have ne: "qs \<noteq> []" by auto
    from Cons.prems(1) ps have "js_le (time p) (time q)" by (simp add: ascending_def)
    then have "js_le (time q) (time q)" using js_le_refl by blast
    moreover from Cons.prems(3) have "js_le t t" using js_le_refl by blast
    ultimately have "js_le (time q) t" using False js_le_total by blast
    moreover from Cons.prems(1) have "ascending ps" by (rule ascending_Cons)
    ultimately have "\<exists>i. brackets ps t i"
      using Cons.prems ps ne Cons.IH by (cases qs) auto
    then obtain i where "brackets ps t i" ..
    then have "brackets (p # ps) t (Suc i)" by (simp add: brackets_Cons)
    then show ?thesis by blast
  qed
qed

lemma sorted_bracket_inside:
  assumes "ascending ps" "brackets ps t i"
  shows "js_le (time (hd ps)) t \<and> js_le t (time (last ps))"
proof -
  from assms(2) have i: "i + 1 < length ps" and a: "js_le (time (ps ! i)) t"
    and b: "js_le t (time (ps ! (i + 1)))" by (simp_all add: brackets_def)
  from i have ne: "ps \<noteq> []" by auto
  have "js_le (time (ps ! 0)) t"
  proof (cases "i = 0")
    case True
    with a show ?thesis by simp
  next
    case False
    with i have "js_le (time (ps ! 0)) (time (ps ! i))"
      using ascending_nth[OF assms(1), of 0 i] by simp
    with a show ?thesis using js_le_trans by blast
  qed
  then have 1: "js_le (time (hd ps)) t" using ne by (simp add: hd_conv_nth)
  have "js_le t (time (ps ! (length ps - 1)))"
  proof (cases "i + 1 = length ps - 1")
    case True
    with b show ?thesis by simp
  next
    case False
    with i have "js_le (time (ps ! (i + 1))) (time (ps ! (length ps - 1)))"
      using ascending_nth[OF assms(1), of "i + 1" "length ps - 1"] by simp
    with b show ?thesis using js_le_trans by blast
  qed
  then have 2: "js_le t (time (last ps))" using ne by (simp add: last_conv_nth)
  from 1 2 show ?thesis ..
qed

lemma firstBracket_iff:
  "firstBracket points t i = (brackets points t i \<and> (\<forall>j<i. \<not> brackets points t j))"
  by (auto simp: firstBracket_def list_all_iff)

lemma loop_short: "length points < 2 \<Longrightarrow> \<not> brackets points t i"
  by (simp add: brackets_def)

text \<open>
  When no operation of the formula rounds, the number computed is the exact value of the
  formula.
\<close>

lemma linearInterpolation_exact:
  assumes "points ! i = \<lparr>time = Fin a, value' = Fin p\<rparr>"
    and "points ! (i + 1) = \<lparr>time = Fin b, value' = Fin q\<rparr>"
    and "a \<noteq> b"
    and "isDouble (r - a)" "isDouble (b - a)" "isDouble ((r - a) / (b - a))"
    and "isDouble (q - p)" "isDouble ((r - a) / (b - a) * (q - p))"
    and "isDouble (p + (r - a) / (b - a) * (q - p))"
  shows "linearInterpolation points (Fin r) i = Fin (p + (r - a) / (b - a) * (q - p))"
proof -
  from assms(1,2,4,5) have "ratioOf points (Fin r) i = js_div (Fin (r - a)) (Fin (b - a))"
    by (simp add: ratioOf_def isDouble_def)
  with assms(3,6) have ratio: "ratioOf points (Fin r) i = Fin ((r - a) / (b - a))"
    by (simp add: isDouble_def)
  from assms(1,2,7) have "js_sub (value' (points ! (i + 1))) (value' (points ! i)) = Fin (q - p)"
    by (simp add: isDouble_def)
  with ratio assms(8) have "js_mul (ratioOf points (Fin r) i)
      (js_sub (value' (points ! (i + 1))) (value' (points ! i)))
      = Fin ((r - a) / (b - a) * (q - p))"
    by (simp add: isDouble_def)
  with assms(1,9) show ?thesis
    by (simp add: linearInterpolation_def isDouble_def)
qed

lemma exampleDiscovered_registry:
  "availableReplications exampleDiscovered =
     [(Fin 1, exampleManifest (Fin 1) ''r1/paths.json'' ''r1/queue.json''),
      (Fin 3, exampleManifest (Fin 3) ''r3/paths.json'' ''r3/queue.json'')]"
  by (simp add: exampleDiscovered_def initializeOrDiscoverReplications_def exampleReader_def
      exampleListing_def discoverItem_def startsWith_def manifestPathOf_def fetchAndParseJSON_def
      exampleJSON_def logRead_def AnimationData_new_def exampleManifest_def Let_def)

lemma exampleActive_statistics:
  "loadedStatisticsFiles exampleActive
     = [(''r1/queue.json'', exampleStatistics (Fin 1) exampleSeries)]"
  by (simp add: exampleActive_def setActiveReplication_def map_get_def exampleDiscovered_registry
      clearCaches_def loadEntityPathBatch_def loadAllStatisticsFiles_def finishStatisticsLoad_def
      map_has_def fetchAndParseJSON_def exampleReader_def exampleJSON_def exampleManifest_def
      logRead_def manifestPathOf_def Let_def)

lemma exampleActive_getStatistic:
  "getStatistic exampleActive ''activity_metric'' ''act1'' ''queueLength''
     = Some (exampleStatistics (Fin 1) exampleSeries)"
  by (simp add: getStatistic_def exampleActive_statistics exampleStatistics_def)

lemma exampleActive_getStatistic_none:
  "getStatistic exampleActive ''activity_metric'' ''act2'' ''queueLength'' = None"
  by (simp add: getStatistic_def exampleActive_statistics exampleStatistics_def)

lemma exampleWithSeries_getStatistic:
  "getStatistic (exampleWithSeries series) ''activity_metric'' ''act1'' ''queueLength''
     = Some (exampleStatistics (Fin 1) series)"
  by (simp add: getStatistic_def exampleWithSeries_def AnimationData_new_def
      exampleStatistics_def)

lemma timeSeries_exampleStatistics: "timeSeries (exampleStatistics rid series) = series"
  by (simp add: exampleStatistics_def)

lemma valueAtTimeLoop_first:
  "firstBracket points t k \<Longrightarrow>
   valueAtTimeLoop points t 0 = Some (ratioOf points t k, linearInterpolation points t k)"
  by (rule loop_first) (simp_all add: firstBracket_iff)

lemma valueAtTimeLoop_none:
  "(valueAtTimeLoop points t 0 = None) = (\<forall>i. \<not> brackets points t i)"
  by (simp add: loop_none)

lemma getStatisticValueAtTime_first:
  "getStatistic s ty cid metric = Some stat \<Longrightarrow> firstBracket (timeSeries stat) t i \<Longrightarrow>
   getStatisticValueAtTime s ty cid metric t = Some (linearInterpolation (timeSeries stat) t i)"
  using valueAtTimeLoop_first[of "timeSeries stat" t i]
  by (simp add: getStatisticValueAtTime_def)

lemma ratioAtTime_first:
  "getStatistic s ty cid metric = Some stat \<Longrightarrow> firstBracket (timeSeries stat) t i \<Longrightarrow>
   ratioAtTime s ty cid metric t = Some (ratioOf (timeSeries stat) t i)"
  using valueAtTimeLoop_first[of "timeSeries stat" t i]
  by (simp add: ratioAtTime_def)

text \<open>The interpolations of the sample series, evaluated in double arithmetic.\<close>

lemma exampleSeries_at_5: "linearInterpolation exampleSeries (Fin 5) 0 = Fin 15"
  by (simp add: linearInterpolation_def ratioOf_def exampleSeries_def double_eval)

lemma exampleSeries_at_10:
  "ratioOf exampleSeries (Fin 10) 0 = Fin 1
   \<and> linearInterpolation exampleSeries (Fin 10) 0 = Fin 20"
  by (simp add: linearInterpolation_def ratioOf_def exampleSeries_def double_eval)

lemma exampleThirdSeries_at_1:
  "linearInterpolation exampleThirdSeries (Fin 1) 0
     = Fin (6004799503160661 / 18014398509481984)"
  by (simp add: linearInterpolation_def ratioOf_def exampleThirdSeries_def double_eval)

lemma exampleHugeSeries_at_0:
  "ratioOf exampleHugeSeries (Fin 0) 0 = Fin 0
   \<and> linearInterpolation exampleHugeSeries (Fin 0) 0 = NaN"
  by (simp add: linearInterpolation_def ratioOf_def exampleHugeSeries_def double_eval)

lemma exampleHugeSeries_at_5: "linearInterpolation exampleHugeSeries (Fin 5) 0 = PosInf"
  by (simp add: linearInterpolation_def ratioOf_def exampleHugeSeries_def double_eval)

lemma exampleDecimalSeries_values:
  "exampleDecimalSeries =
     [\<lparr>time = Fin 0, value' = Fin (3602879701896397 / 18014398509481984)\<rparr>,
      \<lparr>time = Fin 10, value' = Fin (8106479329266893 / 9007199254740992)\<rparr>]"
  by (simp add: exampleDecimalSeries_def double_eval)

lemma exampleDecimalSeries_at_10:
  "ratioOf exampleDecimalSeries (Fin 10) 0 = Fin 1
   \<and> linearInterpolation exampleDecimalSeries (Fin 10) 0
       = Fin (2026619832316723 / 2251799813685248)"
  by (simp add: linearInterpolation_def ratioOf_def exampleDecimalSeries_values double_eval)

lemma exampleInfiniteSeries_at_end:
  "ratioOf exampleInfiniteSeries PosInf 0 = NaN
   \<and> linearInterpolation exampleInfiniteSeries PosInf 0 = NaN"
  by (simp add: linearInterpolation_def ratioOf_def exampleInfiniteSeries_def js_sub_def)

lemma double_numerals:
  "isDouble 0" "isDouble 1" "isDouble 5" "isDouble 10" "isDouble 15" "isDouble 20"
  "isDouble (1 / 2)"
  by (simp_all add: isDouble_def double_eval)

text \<open>
  Claim C1. \<open>getStatisticValueAtTime\<close> returns absent when no statistic matches the
  key. When a statistic matches, it returns the linear interpolation
  \<open>p[i].value + (t - p[i].time) / (p[i+1].time - p[i].time) * (p[i+1].value - p[i].value)\<close>
  over the first adjacent pair of the time series that brackets \<open>t\<close>, each operation
  being the operation on doubles; when none of the operations rounds, that is the exact
  value of the formula. It returns absent exactly when no statistic matches, or the
  series has fewer than two points, or no adjacent pair brackets \<open>t\<close>; for a series in
  ascending order of time with at least two points the last case is that \<open>t\<close> is
  before the first point or after the last. For the series \<open>[(0,10),(10,20)]\<close> the
  value at 5 is 15, and the values at -1 and at 11 are absent.
\<close>

theorem getStatisticValueAtTime_interpolates:
  "(getStatistic s ty cid metric = None \<longrightarrow> getStatisticValueAtTime s ty cid metric t = None)
   \<and> (\<forall>stat i. getStatistic s ty cid metric = Some stat \<and> firstBracket (timeSeries stat) t i \<longrightarrow>
         getStatisticValueAtTime s ty cid metric t
           = Some (linearInterpolation (timeSeries stat) t i))
   \<and> (\<forall>stat i r a b p q. getStatistic s ty cid metric = Some stat
          \<and> firstBracket (timeSeries stat) (Fin r) i
          \<and> timeSeries stat ! i = \<lparr>time = Fin a, value' = Fin p\<rparr>
          \<and> timeSeries stat ! (i + 1) = \<lparr>time = Fin b, value' = Fin q\<rparr>
          \<and> a \<noteq> b
          \<and> isDouble (r - a) \<and> isDouble (b - a) \<and> isDouble ((r - a) / (b - a))
          \<and> isDouble (q - p) \<and> isDouble ((r - a) / (b - a) * (q - p))
          \<and> isDouble (p + (r - a) / (b - a) * (q - p)) \<longrightarrow>
         getStatisticValueAtTime s ty cid metric (Fin r)
           = Some (Fin (p + (r - a) / (b - a) * (q - p))))
   \<and> ((getStatisticValueAtTime s ty cid metric t = None) =
        (case getStatistic s ty cid metric of
           None \<Rightarrow> True
         | Some stat \<Rightarrow> length (timeSeries stat) < 2
                        \<or> (\<forall>i. \<not> brackets (timeSeries stat) t i)))
   \<and> (\<forall>stat. getStatistic s ty cid metric = Some stat \<and> 2 \<le> length (timeSeries stat)
          \<and> ascending (timeSeries stat) \<longrightarrow>
         ((\<forall>i. \<not> brackets (timeSeries stat) t i) =
          (\<not> (js_le (time (hd (timeSeries stat))) t
               \<and> js_le t (time (last (timeSeries stat)))))))
   \<and> (\<forall>stat. getStatistic s ty cid metric = Some stat
          \<and> timeSeries stat
              = [\<lparr>time = Fin 0, value' = Fin 10\<rparr>, \<lparr>time = Fin 10, value' = Fin 20\<rparr>] \<longrightarrow>
         getStatisticValueAtTime s ty cid metric (Fin 5) = Some (Fin 15)
         \<and> getStatisticValueAtTime s ty cid metric (Fin (- 1)) = None
         \<and> getStatisticValueAtTime s ty cid metric (Fin 11) = None)"
proof (intro conjI allI impI)
  show "getStatisticValueAtTime s ty cid metric t = None" if "getStatistic s ty cid metric = None"
    using that by (simp add: getStatisticValueAtTime_def)
next
  fix stat i
  assume "getStatistic s ty cid metric = Some stat \<and> firstBracket (timeSeries stat) t i"
  then show "getStatisticValueAtTime s ty cid metric t
      = Some (linearInterpolation (timeSeries stat) t i)"
    by (simp add: getStatisticValueAtTime_first)
next
  fix stat i r a b p q
  assume a: "getStatistic s ty cid metric = Some stat
    \<and> firstBracket (timeSeries stat) (Fin r) i
    \<and> timeSeries stat ! i = \<lparr>time = Fin a, value' = Fin p\<rparr>
    \<and> timeSeries stat ! (i + 1) = \<lparr>time = Fin b, value' = Fin q\<rparr>
    \<and> a \<noteq> b
    \<and> isDouble (r - a) \<and> isDouble (b - a) \<and> isDouble ((r - a) / (b - a))
    \<and> isDouble (q - p) \<and> isDouble ((r - a) / (b - a) * (q - p))
    \<and> isDouble (p + (r - a) / (b - a) * (q - p))"
  then have "getStatisticValueAtTime s ty cid metric (Fin r)
      = Some (linearInterpolation (timeSeries stat) (Fin r) i)"
    by (simp add: getStatisticValueAtTime_first)
  moreover from a have "linearInterpolation (timeSeries stat) (Fin r) i
      = Fin (p + (r - a) / (b - a) * (q - p))"
    by (intro linearInterpolation_exact) simp_all
  ultimately show "getStatisticValueAtTime s ty cid metric (Fin r)
      = Some (Fin (p + (r - a) / (b - a) * (q - p)))"
    by simp
next
  show "(getStatisticValueAtTime s ty cid metric t = None) =
        (case getStatistic s ty cid metric of
           None \<Rightarrow> True
         | Some stat \<Rightarrow> length (timeSeries stat) < 2
                        \<or> (\<forall>i. \<not> brackets (timeSeries stat) t i))"
  proof (cases "getStatistic s ty cid metric")
    case None
    then show ?thesis by (simp add: getStatisticValueAtTime_def)
  next
    case (Some stat)
    have "length (timeSeries stat) < 2 \<Longrightarrow> \<forall>i. \<not> brackets (timeSeries stat) t i"
      by (simp add: loop_short)
    with Some show ?thesis
      by (auto simp: getStatisticValueAtTime_def valueAtTimeLoop_none)
  qed
next
  fix stat
  assume a: "getStatistic s ty cid metric = Some stat \<and> 2 \<le> length (timeSeries stat)
    \<and> ascending (timeSeries stat)"
  show "(\<forall>i. \<not> brackets (timeSeries stat) t i) =
        (\<not> (js_le (time (hd (timeSeries stat))) t
             \<and> js_le t (time (last (timeSeries stat)))))"
    using a sorted_bracket_exists[of "timeSeries stat" t]
      sorted_bracket_inside[of "timeSeries stat" t] by blast
next
  fix stat
  assume a: "getStatistic s ty cid metric = Some stat
    \<and> timeSeries stat = [\<lparr>time = Fin 0, value' = Fin 10\<rparr>, \<lparr>time = Fin 10, value' = Fin 20\<rparr>]"
  then have ts: "timeSeries stat = exampleSeries" by (simp add: exampleSeries_def)
  have fb: "firstBracket (timeSeries stat) (Fin 5) 0"
    using a by (simp add: firstBracket_def brackets_def)
  with a show "getStatisticValueAtTime s ty cid metric (Fin 5) = Some (Fin 15)"
    using getStatisticValueAtTime_first[of s ty cid metric stat "Fin 5" 0]
    by (simp add: ts exampleSeries_at_5)
  have "\<not> brackets (timeSeries stat) (Fin (- 1)) i" for i
    using a by (cases i) (simp_all add: brackets_def)
  with a show "getStatisticValueAtTime s ty cid metric (Fin (- 1)) = None"
    by (simp add: getStatisticValueAtTime_def valueAtTimeLoop_none)
  have "\<not> brackets (timeSeries stat) (Fin 11) i" for i
    using a by (cases i) (simp_all add: brackets_def)
  with a show "getStatisticValueAtTime s ty cid metric (Fin 11) = None"
    by (simp add: getStatisticValueAtTime_def valueAtTimeLoop_none)
qed

theorem getStatisticValueAtTime_interpolates_witness:
  "getStatistic exampleActive ''activity_metric'' ''act1'' ''queueLength''
     = Some (exampleStatistics (Fin 1) exampleSeries)
   \<and> firstBracket exampleSeries (Fin 5) 0
   \<and> exampleSeries ! 0 = \<lparr>time = Fin 0, value' = Fin 10\<rparr>
   \<and> exampleSeries ! (0 + 1) = \<lparr>time = Fin 10, value' = Fin 20\<rparr>
   \<and> isDouble (5 - 0) \<and> isDouble (10 - 0) \<and> isDouble ((5 - 0) / (10 - 0))
   \<and> isDouble (20 - 10) \<and> isDouble ((5 - 0) / (10 - 0) * (20 - 10))
   \<and> isDouble (10 + (5 - 0) / (10 - 0) * (20 - 10))
   \<and> 2 \<le> length exampleSeries \<and> ascending exampleSeries
   \<and> getStatisticValueAtTime exampleActive ''activity_metric'' ''act1'' ''queueLength'' (Fin 5)
       = Some (Fin (10 + (5 - 0) / (10 - 0) * (20 - 10)))
   \<and> getStatisticValueAtTime exampleActive ''activity_metric'' ''act1'' ''queueLength'' (Fin 5)
       = Some (Fin 15)
   \<and> getStatisticValueAtTime exampleActive ''activity_metric'' ''act1'' ''queueLength'' (Fin (- 1))
       = None
   \<and> getStatisticValueAtTime exampleActive ''activity_metric'' ''act1'' ''queueLength'' (Fin 11)
       = None
   \<and> getStatistic exampleActive ''activity_metric'' ''act2'' ''queueLength'' = None
   \<and> getStatisticValueAtTime exampleActive ''activity_metric'' ''act2'' ''queueLength'' (Fin 5)
       = None
   \<and> firstBracket exampleThirdSeries (Fin 1) 0
   \<and> getStatisticValueAtTime (exampleWithSeries exampleThirdSeries)
        ''activity_metric'' ''act1'' ''queueLength'' (Fin 1)
       = Some (Fin (6004799503160661 / 18014398509481984))
   \<and> firstBracket exampleHugeSeries (Fin 0) 0
   \<and> getStatisticValueAtTime (exampleWithSeries exampleHugeSeries)
        ''activity_metric'' ''act1'' ''queueLength'' (Fin 0) = Some NaN
   \<and> firstBracket exampleHugeSeries (Fin 5) 0
   \<and> getStatisticValueAtTime (exampleWithSeries exampleHugeSeries)
        ''activity_metric'' ''act1'' ''queueLength'' (Fin 5) = Some PosInf"
proof -
  note active = getStatisticValueAtTime_interpolates
    [of exampleActive "''activity_metric''" "''act1''" "''queueLength''" "Fin 5"]
  note other = getStatisticValueAtTime_interpolates
    [of exampleActive "''activity_metric''" "''act2''" "''queueLength''" "Fin 5"]
  note third = getStatisticValueAtTime_interpolates
    [of "exampleWithSeries exampleThirdSeries" "''activity_metric''" "''act1''"
        "''queueLength''" "Fin 1"]
  note huge0 = getStatisticValueAtTime_interpolates
    [of "exampleWithSeries exampleHugeSeries" "''activity_metric''" "''act1''"
        "''queueLength''" "Fin 0"]
  note huge5 = getStatisticValueAtTime_interpolates
    [of "exampleWithSeries exampleHugeSeries" "''activity_metric''" "''act1''"
        "''queueLength''" "Fin 5"]
  have fb: "firstBracket exampleSeries (Fin 5) 0"
    by (simp add: firstBracket_def brackets_def exampleSeries_def)
  have fb3: "firstBracket exampleThirdSeries (Fin 1) 0"
    by (simp add: firstBracket_def brackets_def exampleThirdSeries_def)
  have fbh0: "firstBracket exampleHugeSeries (Fin 0) 0"
    by (simp add: firstBracket_def brackets_def exampleHugeSeries_def)
  have fbh5: "firstBracket exampleHugeSeries (Fin 5) 0"
    by (simp add: firstBracket_def brackets_def exampleHugeSeries_def)
  have points: "exampleSeries ! 0 = \<lparr>time = Fin 0, value' = Fin 10\<rparr>"
    "exampleSeries ! (0 + 1) = \<lparr>time = Fin 10, value' = Fin 20\<rparr>"
    by (simp_all add: exampleSeries_def)
  have doubles: "isDouble (5 - 0)" "isDouble (10 - 0)" "isDouble ((5 - 0) / (10 - 0))"
    "isDouble (20 - 10)" "isDouble ((5 - 0) / (10 - 0) * (20 - 10))"
    "isDouble (10 + (5 - 0) / (10 - 0) * (20 - 10))"
    by (simp_all add: double_numerals)
  have asc: "2 \<le> length exampleSeries" "ascending exampleSeries"
    by (simp_all add: exampleSeries_def ascending_def)
  have series: "timeSeries (exampleStatistics (Fin 1) exampleSeries)
      = [\<lparr>time = Fin 0, value' = Fin 10\<rparr>, \<lparr>time = Fin 10, value' = Fin 20\<rparr>]"
    by (simp add: timeSeries_exampleStatistics exampleSeries_def)
  have exact: "getStatisticValueAtTime exampleActive ''activity_metric'' ''act1'' ''queueLength''
      (Fin 5) = Some (Fin (10 + (5 - 0) / (10 - 0) * (20 - 10)))"
    by (rule active[THEN conjunct2, THEN conjunct2, THEN conjunct1, rule_format,
          where stat = "exampleStatistics (Fin 1) exampleSeries" and i = 0 and r = 5
            and a = 0 and b = 10 and p = 10 and q = 20])
       (simp add: exampleActive_getStatistic timeSeries_exampleStatistics
          fb[unfolded exampleSeries_def] exampleSeries_def double_numerals)
  from active exampleActive_getStatistic series
  have spec: "getStatisticValueAtTime exampleActive ''activity_metric'' ''act1'' ''queueLength''
        (Fin 5) = Some (Fin 15)
      \<and> getStatisticValueAtTime exampleActive ''activity_metric'' ''act1'' ''queueLength''
        (Fin (- 1)) = None
      \<and> getStatisticValueAtTime exampleActive ''activity_metric'' ''act1'' ''queueLength''
        (Fin 11) = None"
    by blast
  from other exampleActive_getStatistic_none
  have none: "getStatisticValueAtTime exampleActive ''activity_metric'' ''act2'' ''queueLength''
      (Fin 5) = None"
    by blast
  have v3: "getStatisticValueAtTime (exampleWithSeries exampleThirdSeries)
      ''activity_metric'' ''act1'' ''queueLength'' (Fin 1)
      = Some (linearInterpolation exampleThirdSeries (Fin 1) 0)"
    by (rule third[THEN conjunct2, THEN conjunct1, rule_format,
          where stat = "exampleStatistics (Fin 1) exampleThirdSeries" and i = 0,
          unfolded timeSeries_exampleStatistics])
       (simp add: exampleWithSeries_getStatistic fb3)
  have h0: "getStatisticValueAtTime (exampleWithSeries exampleHugeSeries)
      ''activity_metric'' ''act1'' ''queueLength'' (Fin 0)
      = Some (linearInterpolation exampleHugeSeries (Fin 0) 0)"
    by (rule huge0[THEN conjunct2, THEN conjunct1, rule_format,
          where stat = "exampleStatistics (Fin 1) exampleHugeSeries" and i = 0,
          unfolded timeSeries_exampleStatistics])
       (simp add: exampleWithSeries_getStatistic fbh0)
  have h5: "getStatisticValueAtTime (exampleWithSeries exampleHugeSeries)
      ''activity_metric'' ''act1'' ''queueLength'' (Fin 5)
      = Some (linearInterpolation exampleHugeSeries (Fin 5) 0)"
    by (rule huge5[THEN conjunct2, THEN conjunct1, rule_format,
          where stat = "exampleStatistics (Fin 1) exampleHugeSeries" and i = 0,
          unfolded timeSeries_exampleStatistics])
       (simp add: exampleWithSeries_getStatistic fbh5)
  from exampleActive_getStatistic exampleActive_getStatistic_none fb fb3 fbh0 fbh5 points doubles
    asc exact spec none v3 h0 h5
  show ?thesis
    by (simp only: exampleThirdSeries_at_1 exampleHugeSeries_at_0 exampleHugeSeries_at_5
        simp_thms)
qed

subsection \<open>Range queries\<close>

lemma js_gt_empty_range: "js_gt start end' \<Longrightarrow> \<not> inRange start end' p"
  unfolding js_gt_def inRange_def using js_le_trans by blast

text \<open>
  Claim C7. \<open>getStatisticTimeSeriesForRange\<close> returns the points of the matched
  file's time series with \<open>start \<le> time \<le> end\<close>, in file order. The result is a
  sequence in every case: it is empty when no statistic matches the key, when no point
  is in the range, and when \<open>start > end\<close>.
\<close>

theorem getStatisticTimeSeriesForRange_filters:
  "(getStatistic s ty cid metric = None \<longrightarrow>
      getStatisticTimeSeriesForRange s ty cid metric start end' = [])
   \<and> (\<forall>stat. getStatistic s ty cid metric = Some stat \<longrightarrow>
         getStatisticTimeSeriesForRange s ty cid metric start end'
           = filter (inRange start end') (timeSeries stat)
         \<and> subseq (getStatisticTimeSeriesForRange s ty cid metric start end') (timeSeries stat)
         \<and> ((\<forall>p \<in> set (timeSeries stat). \<not> inRange start end' p) \<longrightarrow>
              getStatisticTimeSeriesForRange s ty cid metric start end' = []))
   \<and> (js_gt start end' \<longrightarrow> getStatisticTimeSeriesForRange s ty cid metric start end' = [])"
proof -
  have eq: "getStatisticTimeSeriesForRange s ty cid metric start end'
      = filter (inRange start end') (timeSeries stat)"
    if "getStatistic s ty cid metric = Some stat" for stat
    using that by (simp add: getStatisticTimeSeriesForRange_def inRange_def[abs_def] js_ge_def)
  have none: "getStatisticTimeSeriesForRange s ty cid metric start end' = []"
    if "getStatistic s ty cid metric = None"
    using that by (simp add: getStatisticTimeSeriesForRange_def)
  have gt: "getStatisticTimeSeriesForRange s ty cid metric start end' = []" if "js_gt start end'"
  proof (cases "getStatistic s ty cid metric")
    case None
    then show ?thesis by (rule none)
  next
    case (Some stat)
    then show ?thesis using that by (simp add: eq js_gt_empty_range)
  qed
  show ?thesis
    using none gt by (auto simp: eq filter_empty_conv)
qed

theorem getStatisticTimeSeriesForRange_filters_witness:
  "getStatistic exampleActive ''activity_metric'' ''act1'' ''queueLength''
     = Some (exampleStatistics (Fin 1) exampleSeries)
   \<and> getStatisticTimeSeriesForRange exampleActive ''activity_metric'' ''act1'' ''queueLength''
        (Fin 5) PosInf = [\<lparr>time = Fin 10, value' = Fin 20\<rparr>]
   \<and> list_all (\<lambda>p. \<not> inRange (Fin 11) (Fin 12) p) exampleSeries
   \<and> getStatisticTimeSeriesForRange exampleActive ''activity_metric'' ''act1'' ''queueLength''
        (Fin 11) (Fin 12) = []
   \<and> js_gt (Fin 10) (Fin 0)
   \<and> getStatisticTimeSeriesForRange exampleActive ''activity_metric'' ''act1'' ''queueLength''
        (Fin 10) (Fin 0) = []
   \<and> getStatistic exampleActive ''activity_metric'' ''act2'' ''queueLength'' = None
   \<and> getStatisticTimeSeriesForRange exampleActive ''activity_metric'' ''act2'' ''queueLength''
        (Fin 0) (Fin 10) = []"
  using getStatisticTimeSeriesForRange_filters
          [of exampleActive "''activity_metric''" "''act1''" "''queueLength''" "Fin 5" PosInf]
        getStatisticTimeSeriesForRange_filters
          [of exampleActive "''activity_metric''" "''act1''" "''queueLength''" "Fin 11" "Fin 12"]
        getStatisticTimeSeriesForRange_filters
          [of exampleActive "''activity_metric''" "''act1''" "''queueLength''" "Fin 10" "Fin 0"]
        getStatisticTimeSeriesForRange_filters
          [of exampleActive "''activity_metric''" "''act2''" "''queueLength''" "Fin 0" "Fin 10"]
  by (simp add: exampleActive_getStatistic exampleActive_getStatistic_none
      timeSeries_exampleStatistics exampleSeries_def inRange_def js_gt_def)

subsection \<open>Interpolation at a sample\<close>

lemma js_lt_iff: "js_lt a b = (js_le a b \<and> \<not> js_le b a)"
  by (simp add: js_lt_def js_gt_def)

lemma strict_times_nth:
  "strictlyAscending ps \<Longrightarrow> i < j \<Longrightarrow> j < length ps \<Longrightarrow> js_lt (time (ps ! i)) (time (ps ! j))"
  using sorted_wrt_nth_less[of js_lt "map time ps" i j] by (simp add: strictlyAscending_def)

lemma firstBracket_at_sample:
  assumes "strictlyAscending ps" "2 \<le> length ps" "k < length ps"
  shows "firstBracket ps (time (ps ! k)) (k - 1)"
proof (cases k)
  case 0
  with assms have "js_lt (time (ps ! 0)) (time (ps ! 1))" using strict_times_nth[of ps 0 1] by simp
  then have "js_le (time (ps ! 0)) (time (ps ! 1))" "js_le (time (ps ! 0)) (time (ps ! 0))"
    using js_lt_iff js_le_refl by blast+
  with 0 assms show ?thesis by (simp add: firstBracket_iff brackets_def)
next
  case (Suc m)
  with assms have "js_lt (time (ps ! m)) (time (ps ! Suc m))"
    using strict_times_nth[of ps m "Suc m"] by simp
  then have le: "js_le (time (ps ! m)) (time (ps ! Suc m))"
    "js_le (time (ps ! Suc m)) (time (ps ! Suc m))"
    using js_lt_iff js_le_refl by blast+
  have "\<not> brackets ps (time (ps ! Suc m)) j" if "j < m" for j
  proof -
    from that Suc assms have "js_lt (time (ps ! (j + 1))) (time (ps ! Suc m))"
      using strict_times_nth[of ps "j + 1" "Suc m"] by simp
    then show ?thesis by (simp add: brackets_def js_lt_iff)
  qed
  with Suc assms le show ?thesis by (simp add: firstBracket_iff brackets_def)
qed

lemma js_mul_zero_infinite: "\<not> isFinite d \<Longrightarrow> js_mul (Fin 0) d = NaN"
  by (cases d) (simp_all add: isFinite_def)

lemma js_add_NaN [simp]: "js_add u NaN = NaN"
  by (cases u) simp_all

lemma js_mul_NaN [simp]: "js_mul NaN u = NaN"
  by (cases u) simp_all

lemma adjacent_times:
  assumes "strictlyAscending ps" "list_all (\<lambda>point. finiteDouble (time point)) ps"
    and "Suc m < length ps"
  obtains a b where "time (ps ! m) = Fin a" "time (ps ! Suc m) = Fin b"
    "roundDouble (b - a) \<noteq> Fin 0"
proof -
  from assms(2,3) have "finiteDouble (time (ps ! m))" "finiteDouble (time (ps ! Suc m))"
    by (simp_all add: list_all_length)
  then obtain a b where ab: "time (ps ! m) = Fin a" "time (ps ! Suc m) = Fin b"
    and d: "isDouble a" "isDouble b"
    by (auto simp: finiteDouble_def split: jsnum.splits)
  from assms(1,3) have "js_lt (time (ps ! m)) (time (ps ! Suc m))"
    using strict_times_nth[of ps m "Suc m"] by simp
  with ab have "a \<noteq> b" by (auto simp: js_lt_iff)
  with d have "roundDouble (b - a) \<noteq> Fin 0" by (rule double_difference_nonzero)
  with ab that show thesis by blast
qed

lemma ratio_at_first:
  assumes "strictlyAscending ps" "list_all (\<lambda>point. finiteDouble (time point)) ps"
    and "2 \<le> length ps"
  shows "ratioOf ps (time (ps ! 0)) 0 = Fin 0"
proof -
  from assms obtain a b where ab: "time (ps ! 0) = Fin a" "time (ps ! Suc 0) = Fin b"
    and nz: "roundDouble (b - a) \<noteq> Fin 0"
    using adjacent_times[of ps 0] by auto
  from nz have "js_div (Fin 0) (roundDouble (b - a)) = Fin 0"
    by (intro js_div_zero) simp_all
  with ab show ?thesis by (simp add: ratioOf_def)
qed

lemma ratio_at_later:
  assumes "strictlyAscending ps" "list_all (\<lambda>point. finiteDouble (time point)) ps"
    and "Suc m < length ps"
  shows "ratioOf ps (time (ps ! Suc m)) m
           = (if isFinite (js_sub (time (ps ! Suc m)) (time (ps ! m))) then Fin 1 else NaN)"
proof -
  from assms obtain a b where ab: "time (ps ! m) = Fin a" "time (ps ! Suc m) = Fin b"
    and nz: "roundDouble (b - a) \<noteq> Fin 0"
    by (rule adjacent_times)
  from nz have "js_div (roundDouble (b - a)) (roundDouble (b - a))
      = (case roundDouble (b - a) of Fin _ \<Rightarrow> Fin 1 | _ \<Rightarrow> NaN)"
    by (rule js_div_self)
  with ab show ?thesis
    by (simp add: ratioOf_def isFinite_def split: jsnum.splits)
qed

lemma value_at_first:
  "finiteDouble u \<Longrightarrow> isFinite (js_sub w u) \<Longrightarrow> js_add u (js_mul (Fin 0) (js_sub w u)) = u"
  by (cases u; cases "js_sub w u") (simp_all add: finiteDouble_def isFinite_def isDouble_def)

lemma value_at_later:
  "exactDifference u w \<Longrightarrow> js_add u (js_mul (Fin 1) (js_sub w u)) = w"
  by (cases u; cases w) (simp_all add: exactDifference_def isDouble_def)

text \<open>
  Claim C9, as amended. Take a matched file whose time series has at least two points,
  with timestamps that are finite and strictly increasing, and query it at the timestamp
  of the sample \<open>k\<close>. The first bracketing pair is \<open>(0, 1)\<close> for the first sample and
  \<open>(k - 1, k)\<close> for a later one. At the first sample the ratio is 0, and the result is
  the sample's value when that value is finite and the difference of the two values of
  the pair does not overflow; when it overflows the result is \<open>NaN\<close>. At a later
  sample the ratio is 1, unless the difference of the two timestamps overflows; the
  result is \<open>v[k-1] + 1 * (v[k] - v[k-1])\<close> in double arithmetic, which is the sample's
  value when the difference of the two values is exact, and \<open>NaN\<close> when the
  difference of the timestamps overflows.
\<close>

theorem getStatisticValueAtTime_at_sample:
  assumes "getStatistic s ty cid metric = Some stat"
    and "ts = timeSeries stat"
    and "2 \<le> length ts"
    and "list_all (\<lambda>point. finiteDouble (time point)) ts"
    and "strictlyAscending ts"
    and "k < length ts"
  shows "firstBracket ts (time (ts ! k)) (k - 1)
    \<and> (k = 0 \<longrightarrow>
          ratioAtTime s ty cid metric (time (ts ! k)) = Some (Fin 0)
          \<and> getStatisticValueAtTime s ty cid metric (time (ts ! k))
              = Some (js_add (value' (ts ! 0))
                        (js_mul (Fin 0) (js_sub (value' (ts ! 1)) (value' (ts ! 0)))))
          \<and> (finiteDouble (value' (ts ! k))
               \<and> isFinite (js_sub (value' (ts ! 1)) (value' (ts ! 0))) \<longrightarrow>
              getStatisticValueAtTime s ty cid metric (time (ts ! k)) = Some (value' (ts ! k)))
          \<and> (\<not> isFinite (js_sub (value' (ts ! 1)) (value' (ts ! 0))) \<longrightarrow>
              getStatisticValueAtTime s ty cid metric (time (ts ! k)) = Some NaN))
    \<and> (0 < k \<longrightarrow>
          ratioAtTime s ty cid metric (time (ts ! k))
            = Some (if isFinite (js_sub (time (ts ! k)) (time (ts ! (k - 1)))) then Fin 1 else NaN)
          \<and> (isFinite (js_sub (time (ts ! k)) (time (ts ! (k - 1)))) \<longrightarrow>
              getStatisticValueAtTime s ty cid metric (time (ts ! k))
                = Some (js_add (value' (ts ! (k - 1)))
                          (js_mul (Fin 1) (js_sub (value' (ts ! k)) (value' (ts ! (k - 1)))))))
          \<and> (isFinite (js_sub (time (ts ! k)) (time (ts ! (k - 1))))
               \<and> exactDifference (value' (ts ! (k - 1))) (value' (ts ! k)) \<longrightarrow>
              getStatisticValueAtTime s ty cid metric (time (ts ! k)) = Some (value' (ts ! k)))
          \<and> (\<not> isFinite (js_sub (time (ts ! k)) (time (ts ! (k - 1)))) \<longrightarrow>
              getStatisticValueAtTime s ty cid metric (time (ts ! k)) = Some NaN))"
proof -
  let ?t = "time (ts ! k)"
  have fb: "firstBracket ts ?t (k - 1)"
    using assms(3,5,6) by (intro firstBracket_at_sample)
  from fb assms(1,2) have val: "getStatisticValueAtTime s ty cid metric ?t
      = Some (linearInterpolation ts ?t (k - 1))"
    using getStatisticValueAtTime_first[of s ty cid metric stat ?t "k - 1"] by simp
  from fb assms(1,2) have rat: "ratioAtTime s ty cid metric ?t = Some (ratioOf ts ?t (k - 1))"
    using ratioAtTime_first[of s ty cid metric stat ?t "k - 1"] by simp
  have first: ?thesis if k: "k = 0"
  proof -
    have r: "ratioOf ts ?t (k - 1) = Fin 0"
      using assms(3,4,5) k by (simp add: ratio_at_first)
    then have li: "linearInterpolation ts ?t (k - 1)
        = js_add (value' (ts ! 0)) (js_mul (Fin 0) (js_sub (value' (ts ! 1)) (value' (ts ! 0))))"
      using k by (simp add: linearInterpolation_def)
    from fb val rat r li k show ?thesis
      by (simp add: value_at_first js_mul_zero_infinite)
  qed
  have later: ?thesis if k: "0 < k"
  proof -
    from k obtain m where m: "k = Suc m" by (cases k) auto
    let ?d = "js_sub (time (ts ! Suc m)) (time (ts ! m))"
    have r: "ratioOf ts (time (ts ! Suc m)) m = (if isFinite ?d then Fin 1 else NaN)"
      using assms(4,5,6) m by (intro ratio_at_later) simp_all
    have li: "linearInterpolation ts (time (ts ! Suc m)) m
        = js_add (value' (ts ! m))
            (js_mul (if isFinite ?d then Fin 1 else NaN)
               (js_sub (value' (ts ! Suc m)) (value' (ts ! m))))"
      by (simp add: linearInterpolation_def r)
    from fb val rat r li show ?thesis
      unfolding m by (simp add: value_at_later)
  qed
  show ?thesis
  proof (cases "k = 0")
    case True
    then show ?thesis by (rule first)
  next
    case False
    then have "0 < k" by simp
    then show ?thesis by (rule later)
  qed
qed

theorem getStatisticValueAtTime_at_sample_witness:
  "getStatistic exampleActive ''activity_metric'' ''act1'' ''queueLength''
     = Some (exampleStatistics (Fin 1) exampleSeries)
   \<and> exampleSeries = timeSeries (exampleStatistics (Fin 1) exampleSeries)
   \<and> 2 \<le> length exampleSeries
   \<and> list_all (\<lambda>point. finiteDouble (time point)) exampleSeries
   \<and> strictlyAscending exampleSeries
   \<and> (0::nat) < length exampleSeries \<and> (1::nat) < length exampleSeries
   \<and> time (exampleSeries ! 0) = Fin 0 \<and> value' (exampleSeries ! 0) = Fin 10
   \<and> time (exampleSeries ! 1) = Fin 10 \<and> value' (exampleSeries ! 1) = Fin 20
   \<and> finiteDouble (value' (exampleSeries ! 0))
   \<and> isFinite (js_sub (value' (exampleSeries ! 1)) (value' (exampleSeries ! 0)))
   \<and> isFinite (js_sub (time (exampleSeries ! 1)) (time (exampleSeries ! (1 - 1))))
   \<and> exactDifference (value' (exampleSeries ! (1 - 1))) (value' (exampleSeries ! 1))
   \<and> firstBracket exampleSeries (Fin 0) 0
   \<and> getStatisticValueAtTime exampleActive ''activity_metric'' ''act1'' ''queueLength'' (Fin 0)
       = Some (Fin 10)
   \<and> ratioAtTime exampleActive ''activity_metric'' ''act1'' ''queueLength'' (Fin 0)
       = Some (Fin 0)
   \<and> firstBracket exampleSeries (Fin 10) 0
   \<and> getStatisticValueAtTime exampleActive ''activity_metric'' ''act1'' ''queueLength'' (Fin 10)
       = Some (Fin 20)
   \<and> ratioAtTime exampleActive ''activity_metric'' ''act1'' ''queueLength'' (Fin 10)
       = Some (Fin 1)"
proof -
  have hyps: "exampleSeries = timeSeries (exampleStatistics (Fin 1) exampleSeries)"
    "2 \<le> length exampleSeries"
    "list_all (\<lambda>point. finiteDouble (time point)) exampleSeries"
    "strictlyAscending exampleSeries"
    "(0::nat) < length exampleSeries" "(1::nat) < length exampleSeries"
    by (simp_all add: timeSeries_exampleStatistics exampleSeries_def finiteDouble_def
        double_numerals strictlyAscending_def js_lt_iff)
  have points: "time (exampleSeries ! 0) = Fin 0" "value' (exampleSeries ! 0) = Fin 10"
    "time (exampleSeries ! 1) = Fin 10" "value' (exampleSeries ! 1) = Fin 20"
    by (simp_all add: exampleSeries_def)
  have exact: "finiteDouble (value' (exampleSeries ! 0))"
    "isFinite (js_sub (value' (exampleSeries ! 1)) (value' (exampleSeries ! 0)))"
    "isFinite (js_sub (time (exampleSeries ! 1)) (time (exampleSeries ! (1 - 1))))"
    "exactDifference (value' (exampleSeries ! (1 - 1))) (value' (exampleSeries ! 1))"
    using double_numerals
    by (simp_all add: exampleSeries_def finiteDouble_def isFinite_def exactDifference_def
        isDouble_def)
  note first = getStatisticValueAtTime_at_sample
    [OF exampleActive_getStatistic hyps(1,2,3,4,5)]
  note later = getStatisticValueAtTime_at_sample
    [OF exampleActive_getStatistic hyps(1,2,3,4,6)]
  from first exact(1,2) have
    "firstBracket exampleSeries (time (exampleSeries ! 0)) (0 - 1)
     \<and> getStatisticValueAtTime exampleActive ''activity_metric'' ''act1'' ''queueLength''
         (time (exampleSeries ! 0)) = Some (value' (exampleSeries ! 0))
     \<and> ratioAtTime exampleActive ''activity_metric'' ''act1'' ''queueLength''
         (time (exampleSeries ! 0)) = Some (Fin 0)"
    by blast
  moreover from later exact(3,4) zero_less_one[where 'a = nat] have
    "firstBracket exampleSeries (time (exampleSeries ! 1)) (1 - 1)
     \<and> getStatisticValueAtTime exampleActive ''activity_metric'' ''act1'' ''queueLength''
         (time (exampleSeries ! 1)) = Some (value' (exampleSeries ! 1))
     \<and> ratioAtTime exampleActive ''activity_metric'' ''act1'' ''queueLength''
         (time (exampleSeries ! 1))
         = Some (if isFinite (js_sub (time (exampleSeries ! 1)) (time (exampleSeries ! (1 - 1))))
                 then Fin 1 else NaN)"
    by blast
  moreover note exact(3)
  ultimately show ?thesis
    using exampleActive_getStatistic hyps exact
    by (simp add: points points[unfolded One_nat_def])
qed

text \<open>
  Claim C9 as stated asks, at every sample, for a ratio of 0 and for exactly the
  sample's value. In the series \<open>[(0,10),(10,20)]\<close> the sample at time 10 is returned
  with ratio 1. In the series \<open>[(0,0.2),(10,0.9)]\<close> the query at time 10 returns
  \<open>0.2 + 1 * (0.9 - 0.2)\<close>, which is the double below 0.9. In the series
  \<open>[(0,-2^1023),(10,2^1023)]\<close> the difference of the values overflows, and the query
  at time 0 returns \<open>NaN\<close>. In the series \<open>[(0,1),(Infinity,2)]\<close> the query at the
  last timestamp returns \<open>NaN\<close>.
\<close>

theorem at_sample_counterexample:
  "2 \<le> length exampleSeries \<and> strictlyAscending exampleSeries
   \<and> time (exampleSeries ! 1) = Fin 10
   \<and> ratioAtTime (exampleWithSeries exampleSeries)
        ''activity_metric'' ''act1'' ''queueLength'' (Fin 10) = Some (Fin 1)
   \<and> ratioAtTime (exampleWithSeries exampleSeries)
        ''activity_metric'' ''act1'' ''queueLength'' (Fin 10) \<noteq> Some (Fin 0)
   \<and> 2 \<le> length exampleDecimalSeries \<and> strictlyAscending exampleDecimalSeries
   \<and> time (exampleDecimalSeries ! 1) = Fin 10
   \<and> value' (exampleDecimalSeries ! 1) = Fin (8106479329266893 / 9007199254740992)
   \<and> getStatisticValueAtTime (exampleWithSeries exampleDecimalSeries)
        ''activity_metric'' ''act1'' ''queueLength'' (Fin 10)
       = Some (Fin (8106479329266892 / 9007199254740992))
   \<and> getStatisticValueAtTime (exampleWithSeries exampleDecimalSeries)
        ''activity_metric'' ''act1'' ''queueLength'' (Fin 10)
       \<noteq> Some (value' (exampleDecimalSeries ! 1))
   \<and> 2 \<le> length exampleHugeSeries \<and> strictlyAscending exampleHugeSeries
   \<and> time (exampleHugeSeries ! 0) = Fin 0
   \<and> value' (exampleHugeSeries ! 0) = Fin (- (2 ^ 1023))
   \<and> getStatisticValueAtTime (exampleWithSeries exampleHugeSeries)
        ''activity_metric'' ''act1'' ''queueLength'' (Fin 0) = Some NaN
   \<and> 2 \<le> length exampleInfiniteSeries \<and> strictlyAscending exampleInfiniteSeries
   \<and> time (exampleInfiniteSeries ! 1) = PosInf
   \<and> value' (exampleInfiniteSeries ! 1) = Fin 2
   \<and> getStatisticValueAtTime (exampleWithSeries exampleInfiniteSeries)
        ''activity_metric'' ''act1'' ''queueLength'' PosInf = Some NaN"
proof -
  have loop: "valueAtTimeLoop ps t 0 = Some (ratioOf ps t 0, linearInterpolation ps t 0)"
    if "brackets ps t 0" for ps t
    using that by (subst loop_step) simp
  have b: "brackets exampleSeries (Fin 10) 0" "brackets exampleDecimalSeries (Fin 10) 0"
    "brackets exampleHugeSeries (Fin 0) 0" "brackets exampleInfiniteSeries PosInf 0"
    by (simp_all add: brackets_def exampleSeries_def exampleDecimalSeries_values
        exampleHugeSeries_def exampleInfiniteSeries_def)
  have asc: "strictlyAscending exampleSeries" "strictlyAscending exampleDecimalSeries"
    "strictlyAscending exampleHugeSeries" "strictlyAscending exampleInfiniteSeries"
    by (simp_all add: strictlyAscending_def js_lt_iff exampleSeries_def
        exampleDecimalSeries_values exampleHugeSeries_def exampleInfiniteSeries_def)
  have points: "time (exampleSeries ! Suc 0) = Fin 10"
    "time (exampleDecimalSeries ! Suc 0) = Fin 10"
    "value' (exampleDecimalSeries ! Suc 0) = Fin (8106479329266893 / 9007199254740992)"
    "time (exampleHugeSeries ! 0) = Fin 0" "value' (exampleHugeSeries ! 0) = Fin (- (2 ^ 1023))"
    "time (exampleInfiniteSeries ! Suc 0) = PosInf"
    "value' (exampleInfiniteSeries ! Suc 0) = Fin 2"
    "length exampleSeries = 2" "length exampleDecimalSeries = 2"
    "length exampleHugeSeries = 2" "length exampleInfiniteSeries = 2"
    by (simp_all add: exampleSeries_def exampleDecimalSeries_values exampleHugeSeries_def
        exampleInfiniteSeries_def)
  show ?thesis
    using asc
    by (simp add: points getStatisticValueAtTime_def ratioAtTime_def
        exampleWithSeries_getStatistic timeSeries_exampleStatistics loop[OF b(1)] loop[OF b(2)]
        loop[OF b(3)] loop[OF b(4)] exampleSeries_at_10 exampleDecimalSeries_at_10
        exampleHugeSeries_at_0 exampleInfiniteSeries_at_end)
qed

section \<open>Activation\<close>

subsection \<open>Maps\<close>

lemma map_of_map_set: "map_of (map_set k v m) = (map_of m)(k \<mapsto> v)"
  by (induction m) (auto simp: fun_eq_iff)

lemma keys_map_set: "set (map fst (map_set k v m)) = insert k (set (map fst m))"
  by (induction m) auto

lemma distinct_map_set: "distinct (map fst m) \<Longrightarrow> distinct (map fst (map_set k v m))"
  by (induction m) (auto simp: keys_map_set[simplified])

lemma map_set_new: "\<not> map_has k m \<Longrightarrow> map_set k v m = m @ [(k, v)]"
  by (induction m) (auto simp: map_has_def)

lemma map_has_map_of: "map_has k m = (map_of m k \<noteq> None)"
  by (simp add: map_has_def map_of_eq_None_iff)

lemma map_of_rev_snoc: "map_of (rev (xs @ [(k, v)])) = (map_of (rev xs))(k \<mapsto> v)"
  by (simp add: fun_eq_iff)

subsection \<open>Loading entity-path batches\<close>

lemma indexBatch_lookup:
  "map_of (indexBatch index batch) entityId =
     (case map_of (rev batch) entityId of
        Some p \<Rightarrow> Some (PathValue p)
      | None \<Rightarrow> map_of index entityId)"
  unfolding indexBatch_def
proof (induction batch arbitrary: index rule: rev_induct)
  case Nil
  then show ?case by simp
next
  case (snoc e batch)
  obtain k v where e: "e = (k, v)" by (cases e)
  show ?case using snoc[of index]
    by (simp add: e map_of_map_set)
qed

lemma unionOfBatches_snoc:
  "unionOfBatches (cache @ [(p, batch)]) entityId =
     (case map_of (rev batch) entityId of
        Some v \<Rightarrow> Some v
      | None \<Rightarrow> unionOfBatches cache entityId)"
  unfolding unionOfBatches_def by (simp add: map_add_def)

lemma loadEntityPathBatch_cached:
  "map_has (EntityPathDataFileInfo.filePath fileInfo) (loadedEntityPathBatches s) \<Longrightarrow>
   loadEntityPathBatch reader json s fileInfo = s"
  by (simp add: loadEntityPathBatch_def)

lemma loadEntityPathBatch_failed:
  "\<not> map_has (EntityPathDataFileInfo.filePath fileInfo) (loadedEntityPathBatches s) \<Longrightarrow>
   fetchAndParseJSON reader (parseEntityPathBatch json)
     (EntityPathDataFileInfo.filePath fileInfo) = None \<Longrightarrow>
   loadEntityPathBatch reader json s fileInfo
     = logRead EntityPathBatchDocument (EntityPathDataFileInfo.filePath fileInfo) s"
  by (simp add: loadEntityPathBatch_def)

lemma loadEntityPathBatch_loaded:
  "\<not> map_has (EntityPathDataFileInfo.filePath fileInfo) (loadedEntityPathBatches s) \<Longrightarrow>
   fetchAndParseJSON reader (parseEntityPathBatch json)
     (EntityPathDataFileInfo.filePath fileInfo) = Some batch \<Longrightarrow>
   loadEntityPathBatch reader json s fileInfo
     = s\<lparr>readLog := readLog s
                @ [(EntityPathBatchDocument, EntityPathDataFileInfo.filePath fileInfo)],
         loadedEntityPathBatches := loadedEntityPathBatches s
                @ [(EntityPathDataFileInfo.filePath fileInfo, batch)],
         entityPathsById := indexBatch (entityPathsById s) batch\<rparr>"
  by (simp add: loadEntityPathBatch_def logRead_def map_set_new)

lemma loadEntityPathBatch_cases:
  obtains (cached) "map_has (EntityPathDataFileInfo.filePath fileInfo) (loadedEntityPathBatches s)"
      "loadEntityPathBatch reader json s fileInfo = s"
  | (failed) "\<not> map_has (EntityPathDataFileInfo.filePath fileInfo) (loadedEntityPathBatches s)"
      "fetchAndParseJSON reader (parseEntityPathBatch json)
         (EntityPathDataFileInfo.filePath fileInfo) = None"
      "loadEntityPathBatch reader json s fileInfo
         = logRead EntityPathBatchDocument (EntityPathDataFileInfo.filePath fileInfo) s"
  | (loaded) batch where
      "\<not> map_has (EntityPathDataFileInfo.filePath fileInfo) (loadedEntityPathBatches s)"
      "fetchAndParseJSON reader (parseEntityPathBatch json)
         (EntityPathDataFileInfo.filePath fileInfo) = Some batch"
      "loadEntityPathBatch reader json s fileInfo
         = s\<lparr>readLog := readLog s
                    @ [(EntityPathBatchDocument, EntityPathDataFileInfo.filePath fileInfo)],
             loadedEntityPathBatches := loadedEntityPathBatches s
                    @ [(EntityPathDataFileInfo.filePath fileInfo, batch)],
             entityPathsById := indexBatch (entityPathsById s) batch\<rparr>"
  using loadEntityPathBatch_cached loadEntityPathBatch_failed loadEntityPathBatch_loaded
  by (cases "map_has (EntityPathDataFileInfo.filePath fileInfo) (loadedEntityPathBatches s)";
      cases "fetchAndParseJSON reader (parseEntityPathBatch json)
               (EntityPathDataFileInfo.filePath fileInfo)") auto

lemma loadEntityPathBatch_consistent:
  "indexConsistent s \<Longrightarrow> indexConsistent (loadEntityPathBatch reader json s fileInfo)"
  by (cases rule: loadEntityPathBatch_cases[of fileInfo s reader json])
     (auto simp: indexConsistent_def logRead_def unionOfBatches_snoc indexBatch_lookup
        split: option.splits)

lemma foldl_loadEntityPathBatch_consistent:
  "indexConsistent s \<Longrightarrow> indexConsistent (foldl (loadEntityPathBatch reader json) s files)"
  by (induction files arbitrary: s) (simp_all add: loadEntityPathBatch_consistent)

lemma loadEntityPathBatch_cache:
  "map_of (loadedEntityPathBatches (loadEntityPathBatch reader json s fileInfo)) p =
     (case map_of (loadedEntityPathBatches s) p of
        Some b \<Rightarrow> Some b
      | None \<Rightarrow> if p = EntityPathDataFileInfo.filePath fileInfo
                then fetchAndParseJSON reader (parseEntityPathBatch json) p else None)"
  by (cases rule: loadEntityPathBatch_cases[of fileInfo s reader json])
     (auto simp: logRead_def map_has_map_of map_add_def split: option.splits)

lemma foldl_loadEntityPathBatch_cache:
  "map_of (loadedEntityPathBatches (foldl (loadEntityPathBatch reader json) s files)) p =
     (case map_of (loadedEntityPathBatches s) p of
        Some b \<Rightarrow> Some b
      | None \<Rightarrow> if p \<in> set (map EntityPathDataFileInfo.filePath files)
                then fetchAndParseJSON reader (parseEntityPathBatch json) p else None)"
proof (induction files arbitrary: s)
  case Nil
  then show ?case by (simp split: option.splits)
next
  case (Cons f files)
  show ?case
    by (auto simp: Cons loadEntityPathBatch_cache split: option.splits)
qed

lemma loadEntityPathBatch_frame:
  "availableReplications (loadEntityPathBatch reader json s fileInfo) = availableReplications s"
  "modelLayout (loadEntityPathBatch reader json s fileInfo) = modelLayout s"
  "sharedVisualConfig (loadEntityPathBatch reader json s fileInfo) = sharedVisualConfig s"
  "activeReplicationId (loadEntityPathBatch reader json s fileInfo) = activeReplicationId s"
  "loadedStatisticsFiles (loadEntityPathBatch reader json s fileInfo) = loadedStatisticsFiles s"
  by (cases rule: loadEntityPathBatch_cases[of fileInfo s reader json]; simp add: logRead_def)+

lemma foldl_loadEntityPathBatch_frame:
  "availableReplications (foldl (loadEntityPathBatch reader json) s files) = availableReplications s"
  "modelLayout (foldl (loadEntityPathBatch reader json) s files) = modelLayout s"
  "sharedVisualConfig (foldl (loadEntityPathBatch reader json) s files) = sharedVisualConfig s"
  "activeReplicationId (foldl (loadEntityPathBatch reader json) s files) = activeReplicationId s"
  "loadedStatisticsFiles (foldl (loadEntityPathBatch reader json) s files) = loadedStatisticsFiles s"
  by (induction files arbitrary: s) (simp_all add: loadEntityPathBatch_frame)

lemma loadEntityPathBatch_log:
  "readLog (loadEntityPathBatch reader json s fileInfo) =
     readLog s @ (if map_has (EntityPathDataFileInfo.filePath fileInfo) (loadedEntityPathBatches s)
                  then []
                  else [(EntityPathBatchDocument, EntityPathDataFileInfo.filePath fileInfo)])"
  by (cases rule: loadEntityPathBatch_cases[of fileInfo s reader json]) (simp_all add: logRead_def)

lemma loadEntityPathBatch_has:
  "map_has p (loadedEntityPathBatches (loadEntityPathBatch reader json s fileInfo)) \<Longrightarrow>
   map_has p (loadedEntityPathBatches s)
   \<or> (p = EntityPathDataFileInfo.filePath fileInfo
       \<and> \<not> map_has (EntityPathDataFileInfo.filePath fileInfo) (loadedEntityPathBatches s))"
  by (auto simp: map_has_map_of loadEntityPathBatch_cache split: option.splits if_splits)

lemma foldl_loadEntityPathBatch_log:
  "\<exists>new. readLog (foldl (loadEntityPathBatch reader json) s files) = readLog s @ new
     \<and> set new \<subseteq> Pair EntityPathBatchDocument ` set (map EntityPathDataFileInfo.filePath files)
     \<and> (\<forall>f \<in> set files.
           map_has (EntityPathDataFileInfo.filePath f) (loadedEntityPathBatches s)
           \<or> (EntityPathBatchDocument, EntityPathDataFileInfo.filePath f) \<in> set new)"
proof (induction files arbitrary: s)
  case Nil
  then show ?case by simp
next
  case (Cons f files)
  let ?s1 = "loadEntityPathBatch reader json s f"
  let ?p = "EntityPathDataFileInfo.filePath f"
  let ?d = "if map_has ?p (loadedEntityPathBatches s) then [] else [(EntityPathBatchDocument, ?p)]"
  from Cons[of ?s1] obtain new1 where
    log: "readLog (foldl (loadEntityPathBatch reader json) ?s1 files) = readLog ?s1 @ new1"
    and sub: "set new1 \<subseteq> Pair EntityPathBatchDocument ` set (map EntityPathDataFileInfo.filePath files)"
    and all: "\<forall>g \<in> set files.
           map_has (EntityPathDataFileInfo.filePath g) (loadedEntityPathBatches ?s1)
           \<or> (EntityPathBatchDocument, EntityPathDataFileInfo.filePath g) \<in> set new1"
    by blast
  have 1: "readLog (foldl (loadEntityPathBatch reader json) s (f # files)) = readLog s @ (?d @ new1)"
    using log by (simp add: loadEntityPathBatch_log)
  have 2: "set (?d @ new1)
      \<subseteq> Pair EntityPathBatchDocument ` set (map EntityPathDataFileInfo.filePath (f # files))"
    using sub by auto
  have 3: "map_has (EntityPathDataFileInfo.filePath g) (loadedEntityPathBatches s)
           \<or> (EntityPathBatchDocument, EntityPathDataFileInfo.filePath g) \<in> set (?d @ new1)"
    if "g \<in> set (f # files)" for g
  proof (cases "g = f")
    case True
    then show ?thesis by simp
  next
    case False
    with that have "g \<in> set files" by simp
    with all have "map_has (EntityPathDataFileInfo.filePath g) (loadedEntityPathBatches ?s1)
        \<or> (EntityPathBatchDocument, EntityPathDataFileInfo.filePath g) \<in> set new1" by blast
    then show ?thesis
      using loadEntityPathBatch_has[of "EntityPathDataFileInfo.filePath g" reader json s f]
      by auto
  qed
  from 1 2 3 show ?case by blast
qed

subsection \<open>Loading statistics files\<close>

lemma finishStatisticsLoad_frame:
  "availableReplications (finishStatisticsLoad reader json s p) = availableReplications s"
  "modelLayout (finishStatisticsLoad reader json s p) = modelLayout s"
  "sharedVisualConfig (finishStatisticsLoad reader json s p) = sharedVisualConfig s"
  "activeReplicationId (finishStatisticsLoad reader json s p) = activeReplicationId s"
  "loadedEntityPathBatches (finishStatisticsLoad reader json s p) = loadedEntityPathBatches s"
  "entityPathsById (finishStatisticsLoad reader json s p) = entityPathsById s"
  "readLog (finishStatisticsLoad reader json s p) = readLog s"
  by (simp_all add: finishStatisticsLoad_def split: option.splits)

lemma foldl_finishStatisticsLoad_frame:
  "availableReplications (foldl (finishStatisticsLoad reader json) s ps) = availableReplications s"
  "modelLayout (foldl (finishStatisticsLoad reader json) s ps) = modelLayout s"
  "sharedVisualConfig (foldl (finishStatisticsLoad reader json) s ps) = sharedVisualConfig s"
  "activeReplicationId (foldl (finishStatisticsLoad reader json) s ps) = activeReplicationId s"
  "loadedEntityPathBatches (foldl (finishStatisticsLoad reader json) s ps) = loadedEntityPathBatches s"
  "entityPathsById (foldl (finishStatisticsLoad reader json) s ps) = entityPathsById s"
  "readLog (foldl (finishStatisticsLoad reader json) s ps) = readLog s"
  by (induction ps arbitrary: s) (simp_all add: finishStatisticsLoad_frame)

lemma finishStatisticsLoad_lookup:
  "map_of (loadedStatisticsFiles (finishStatisticsLoad reader json s p)) q =
     (if q = p then (case fetchAndParseJSON reader (parseStatisticsFile json) p of
                       Some f \<Rightarrow> Some f
                     | None \<Rightarrow> map_of (loadedStatisticsFiles s) q)
      else map_of (loadedStatisticsFiles s) q)"
  by (simp add: finishStatisticsLoad_def map_of_map_set split: option.splits)

lemma foldl_finishStatisticsLoad_lookup:
  "map_of (loadedStatisticsFiles (foldl (finishStatisticsLoad reader json) s ps)) q =
     (if q \<in> set ps then (case fetchAndParseJSON reader (parseStatisticsFile json) q of
                             Some f \<Rightarrow> Some f
                           | None \<Rightarrow> map_of (loadedStatisticsFiles s) q)
      else map_of (loadedStatisticsFiles s) q)"
proof (induction ps arbitrary: s)
  case Nil
  then show ?case by simp
next
  case (Cons p ps)
  show ?case by (auto simp: Cons finishStatisticsLoad_lookup split: option.splits)
qed

lemma completesAll_set: "completesAll reader \<Longrightarrow> set (completionOrder reader ps) = set ps"
  unfolding completesAll_def by (metis set_mset_mset)

text \<open>With a single file, \<open>Promise.all\<close> is the call awaited on its own.\<close>

lemma loadAllStatisticsFiles_single:
  assumes "completesAll reader"
  shows "loadAllStatisticsFiles reader json [fileInfo] s = loadStatisticsFile reader json s fileInfo"
proof -
  have "mset (completionOrder reader [p]) = mset [p]" for p
    using assms by (simp only: completesAll_def)
  then have one: "completionOrder reader [p] = [p]" for p
    by (metis mset_single_iff_right mset.simps(1) mset.simps(2))
  have "mset (completionOrder reader []) = mset ([] :: string list)"
    using assms by (simp only: completesAll_def)
  then have zero: "completionOrder reader [] = []" by simp
  show ?thesis
    by (simp add: loadAllStatisticsFiles_def loadStatisticsFile_def logRead_def one zero)
qed

lemma loadAllStatisticsFiles_frame:
  "availableReplications (loadAllStatisticsFiles reader json files s) = availableReplications s"
  "modelLayout (loadAllStatisticsFiles reader json files s) = modelLayout s"
  "sharedVisualConfig (loadAllStatisticsFiles reader json files s) = sharedVisualConfig s"
  "activeReplicationId (loadAllStatisticsFiles reader json files s) = activeReplicationId s"
  "loadedEntityPathBatches (loadAllStatisticsFiles reader json files s) = loadedEntityPathBatches s"
  "entityPathsById (loadAllStatisticsFiles reader json files s) = entityPathsById s"
  by (simp_all add: loadAllStatisticsFiles_def Let_def foldl_finishStatisticsLoad_frame)

lemma loadAllStatisticsFiles_log:
  "readLog (loadAllStatisticsFiles reader json files s) =
     readLog s @ map (Pair StatisticsDocument)
       (map StatisticsDataFileInfo.filePath
          (filter (\<lambda>file. \<not> map_has (StatisticsDataFileInfo.filePath file)
                               (loadedStatisticsFiles s)) files))"
  by (simp add: loadAllStatisticsFiles_def Let_def foldl_finishStatisticsLoad_frame)

lemma loadAllStatisticsFiles_lookup:
  assumes "completesAll reader"
  shows "map_of (loadedStatisticsFiles (loadAllStatisticsFiles reader json files s)) q =
     (case map_of (loadedStatisticsFiles s) q of
        Some f \<Rightarrow> Some f
      | None \<Rightarrow> if q \<in> set (map StatisticsDataFileInfo.filePath files)
                then fetchAndParseJSON reader (parseStatisticsFile json) q else None)"
  by (auto simp: loadAllStatisticsFiles_def Let_def foldl_finishStatisticsLoad_lookup
      completesAll_set[OF assms] map_has_map_of split: option.splits)

subsection \<open>The effect of an activation\<close>

lemma setActiveReplication_unknown:
  "map_get rid (availableReplications s) = None \<Longrightarrow>
   setActiveReplication reader json rid s = (False, s)"
  by (simp add: setActiveReplication_def)

lemma setActiveReplication_known:
  "map_get rid (availableReplications s) = Some manifest \<Longrightarrow>
   setActiveReplication reader json rid s =
     (True, loadAllStatisticsFiles reader json (statisticsDataFiles manifest)
              (foldl (loadEntityPathBatch reader json)
                 (clearCaches (s\<lparr>activeReplicationId := Some rid\<rparr>))
                 (entityPathDataFiles manifest)))"
  by (simp add: setActiveReplication_def)

lemma setActiveReplication_True:
  "setActiveReplication reader json rid s = (True, s') \<Longrightarrow>
   \<exists>manifest. map_get rid (availableReplications s) = Some manifest"
  by (cases "map_get rid (availableReplications s)") (simp_all add: setActiveReplication_def)

lemma indexConsistent_clearCaches: "indexConsistent (clearCaches s)"
  by (simp add: indexConsistent_def clearCaches_def unionOfBatches_def)

lemma newReads_append: "readLog s' = readLog s @ new \<Longrightarrow> newReads s s' = new"
  by (simp add: newReads_def)

lemma activation_effect:
  assumes c: "completesAll reader"
    and m: "map_get rid (availableReplications s) = Some manifest"
    and r: "setActiveReplication reader json rid s = (ok, s')"
  shows "ok" and "activeReplicationId s' = Some rid"
    and "availableReplications s' = availableReplications s"
    and "modelLayout s' = modelLayout s"
    and "sharedVisualConfig s' = sharedVisualConfig s"
    and "map_of (loadedEntityPathBatches s') p =
          (if p \<in> set (map EntityPathDataFileInfo.filePath (entityPathDataFiles manifest))
           then fetchAndParseJSON reader (parseEntityPathBatch json) p else None)"
    and "indexConsistent s'"
    and "map_of (loadedStatisticsFiles s') p =
          (if p \<in> set (map StatisticsDataFileInfo.filePath (statisticsDataFiles manifest))
           then fetchAndParseJSON reader (parseStatisticsFile json) p else None)"
    and "prefix (readLog s) (readLog s')"
    and "set (newReads s s') =
          Pair EntityPathBatchDocument
            ` set (map EntityPathDataFileInfo.filePath (entityPathDataFiles manifest))
          \<union> Pair StatisticsDocument
            ` set (map StatisticsDataFileInfo.filePath (statisticsDataFiles manifest))"
proof -
  let ?s1 = "clearCaches (s\<lparr>activeReplicationId := Some rid\<rparr>)"
  let ?s2 = "foldl (loadEntityPathBatch reader json) ?s1 (entityPathDataFiles manifest)"
  from m r have ok: "ok"
    and s': "s' = loadAllStatisticsFiles reader json (statisticsDataFiles manifest) ?s2"
    by (simp_all add: setActiveReplication_known)
  show "ok" by (rule ok)
  show "activeReplicationId s' = Some rid"
    by (simp add: s' loadAllStatisticsFiles_frame foldl_loadEntityPathBatch_frame clearCaches_def)
  show "availableReplications s' = availableReplications s"
    by (simp add: s' loadAllStatisticsFiles_frame foldl_loadEntityPathBatch_frame clearCaches_def)
  show "modelLayout s' = modelLayout s"
    by (simp add: s' loadAllStatisticsFiles_frame foldl_loadEntityPathBatch_frame clearCaches_def)
  show "sharedVisualConfig s' = sharedVisualConfig s"
    by (simp add: s' loadAllStatisticsFiles_frame foldl_loadEntityPathBatch_frame clearCaches_def)
  have e1: "loadedEntityPathBatches ?s1 = []" and st1: "loadedStatisticsFiles ?s1 = []"
    and l1: "readLog ?s1 = readLog s"
    by (simp_all add: clearCaches_def)
  show "map_of (loadedEntityPathBatches s') p =
          (if p \<in> set (map EntityPathDataFileInfo.filePath (entityPathDataFiles manifest))
           then fetchAndParseJSON reader (parseEntityPathBatch json) p else None)"
    unfolding s' loadAllStatisticsFiles_frame foldl_loadEntityPathBatch_cache e1 by simp
  have "indexConsistent ?s2"
    by (intro foldl_loadEntityPathBatch_consistent indexConsistent_clearCaches)
  then show "indexConsistent s'"
    by (simp add: indexConsistent_def s' loadAllStatisticsFiles_frame)
  have st2: "loadedStatisticsFiles ?s2 = []"
    by (simp add: foldl_loadEntityPathBatch_frame st1)
  show "map_of (loadedStatisticsFiles s') p =
          (if p \<in> set (map StatisticsDataFileInfo.filePath (statisticsDataFiles manifest))
           then fetchAndParseJSON reader (parseStatisticsFile json) p else None)"
    unfolding s' loadAllStatisticsFiles_lookup[OF c] st2 by simp
  from foldl_loadEntityPathBatch_log[of reader json ?s1 "entityPathDataFiles manifest"]
  obtain new where log2: "readLog ?s2 = readLog s @ new"
    and sub: "set new \<subseteq> Pair EntityPathBatchDocument
        ` set (map EntityPathDataFileInfo.filePath (entityPathDataFiles manifest))"
    and all: "\<forall>f \<in> set (entityPathDataFiles manifest).
        (EntityPathBatchDocument, EntityPathDataFileInfo.filePath f) \<in> set new"
    by (auto simp: e1 l1 map_has_def)
  from sub all have new: "set new = Pair EntityPathBatchDocument
        ` set (map EntityPathDataFileInfo.filePath (entityPathDataFiles manifest))"
    by auto
  have log': "readLog s' = readLog s @ (new @ map (Pair StatisticsDocument)
      (map StatisticsDataFileInfo.filePath (statisticsDataFiles manifest)))"
    by (simp add: s' loadAllStatisticsFiles_log st2 map_has_def log2)
  then show "prefix (readLog s) (readLog s')" by simp
  from newReads_append[OF log'] new
  show "set (newReads s s') =
          Pair EntityPathBatchDocument
            ` set (map EntityPathDataFileInfo.filePath (entityPathDataFiles manifest))
          \<union> Pair StatisticsDocument
            ` set (map StatisticsDataFileInfo.filePath (statisticsDataFiles manifest))"
    by (simp add: image_image)
qed

subsection \<open>The caches after an activation do not depend on the caches before\<close>

lemma loadEntityPathBatch_same:
  assumes "sameCaches a' b'" "readLog a' = readLog a @ D" "readLog b' = readLog b @ D"
  shows "sameCaches (loadEntityPathBatch reader json a' f) (loadEntityPathBatch reader json b' f)
     \<and> (\<exists>E. readLog (loadEntityPathBatch reader json a' f) = readLog a @ E
           \<and> readLog (loadEntityPathBatch reader json b' f) = readLog b @ E)"
  using assms
  by (auto simp: sameCaches_def loadEntityPathBatch_def logRead_def Let_def split: option.splits)

lemma foldl_loadEntityPathBatch_same:
  assumes "sameCaches a' b'" "readLog a' = readLog a @ D" "readLog b' = readLog b @ D"
  shows "sameCaches (foldl (loadEntityPathBatch reader json) a' files)
           (foldl (loadEntityPathBatch reader json) b' files)
     \<and> (\<exists>E. readLog (foldl (loadEntityPathBatch reader json) a' files) = readLog a @ E
           \<and> readLog (foldl (loadEntityPathBatch reader json) b' files) = readLog b @ E)"
  using assms
proof (induction files arbitrary: a' b' D)
  case Nil
  then show ?case by auto
next
  case (Cons f files)
  from loadEntityPathBatch_same[OF Cons.prems, of reader json f]
  obtain E where "sameCaches (loadEntityPathBatch reader json a' f) (loadEntityPathBatch reader json b' f)"
    "readLog (loadEntityPathBatch reader json a' f) = readLog a @ E"
    "readLog (loadEntityPathBatch reader json b' f) = readLog b @ E" by blast
  from Cons.IH[OF this] show ?case by simp
qed

lemma foldl_finishStatisticsLoad_same:
  "sameCaches a b \<Longrightarrow>
   sameCaches (foldl (finishStatisticsLoad reader json) a ps)
     (foldl (finishStatisticsLoad reader json) b ps)"
proof (induction ps arbitrary: a b)
  case Nil
  then show ?case by simp
next
  case (Cons p ps)
  from Cons.prems have "sameCaches (finishStatisticsLoad reader json a p)
      (finishStatisticsLoad reader json b p)"
    by (auto simp: sameCaches_def finishStatisticsLoad_def split: option.splits)
  from Cons.IH[OF this] show ?case by simp
qed

lemma loadAllStatisticsFiles_same:
  assumes "sameCaches a' b'" "readLog a' = readLog a @ D" "readLog b' = readLog b @ D"
  shows "sameCaches (loadAllStatisticsFiles reader json files a')
           (loadAllStatisticsFiles reader json files b')
     \<and> (\<exists>E. readLog (loadAllStatisticsFiles reader json files a') = readLog a @ E
           \<and> readLog (loadAllStatisticsFiles reader json files b') = readLog b @ E)"
proof -
  from assms(1) have st: "loadedStatisticsFiles a' = loadedStatisticsFiles b'"
    by (simp add: sameCaches_def)
  let ?issued = "map StatisticsDataFileInfo.filePath
       (filter (\<lambda>file. \<not> map_has (StatisticsDataFileInfo.filePath file)
                            (loadedStatisticsFiles b')) files)"
  have "sameCaches (a'\<lparr>readLog := readLog a' @ map (Pair StatisticsDocument) ?issued\<rparr>)
      (b'\<lparr>readLog := readLog b' @ map (Pair StatisticsDocument) ?issued\<rparr>)"
    using assms(1) by (simp add: sameCaches_def)
  from foldl_finishStatisticsLoad_same[OF this, of reader json "completionOrder reader ?issued"]
  have "sameCaches (loadAllStatisticsFiles reader json files a')
           (loadAllStatisticsFiles reader json files b')"
    by (simp add: loadAllStatisticsFiles_def Let_def st)
  moreover have "readLog (loadAllStatisticsFiles reader json files a')
      = readLog a @ (D @ map (Pair StatisticsDocument) ?issued)"
    by (simp add: loadAllStatisticsFiles_log st assms(2))
  moreover have "readLog (loadAllStatisticsFiles reader json files b')
      = readLog b @ (D @ map (Pair StatisticsDocument) ?issued)"
    by (simp add: loadAllStatisticsFiles_log assms(3))
  ultimately show ?thesis by blast
qed

lemma setActiveReplication_same:
  assumes "map_get rid (availableReplications a) = Some manifest"
    and "map_get rid (availableReplications b) = Some manifest"
  shows "sameCaches (snd (setActiveReplication reader json rid a))
           (snd (setActiveReplication reader json rid b))
     \<and> newReads a (snd (setActiveReplication reader json rid a))
         = newReads b (snd (setActiveReplication reader json rid b))"
proof -
  let ?a1 = "clearCaches (a\<lparr>activeReplicationId := Some rid\<rparr>)"
  let ?b1 = "clearCaches (b\<lparr>activeReplicationId := Some rid\<rparr>)"
  have 1: "sameCaches ?a1 ?b1" "readLog ?a1 = readLog a @ []" "readLog ?b1 = readLog b @ []"
    by (simp_all add: sameCaches_def clearCaches_def)
  from foldl_loadEntityPathBatch_same[OF 1, of reader json "entityPathDataFiles manifest"]
  obtain E where 2: "sameCaches
      (foldl (loadEntityPathBatch reader json) ?a1 (entityPathDataFiles manifest))
      (foldl (loadEntityPathBatch reader json) ?b1 (entityPathDataFiles manifest))"
    "readLog (foldl (loadEntityPathBatch reader json) ?a1 (entityPathDataFiles manifest))
       = readLog a @ E"
    "readLog (foldl (loadEntityPathBatch reader json) ?b1 (entityPathDataFiles manifest))
       = readLog b @ E" by blast
  from loadAllStatisticsFiles_same[OF 2, of reader json "statisticsDataFiles manifest"]
  show ?thesis
    by (auto simp: setActiveReplication_known[OF assms(1)] setActiveReplication_known[OF assms(2)]
        newReads_append)
qed

lemma loadEntityPathBatch_entries:
  "(p, batch) \<in> set (loadedEntityPathBatches (loadEntityPathBatch reader json s f)) \<Longrightarrow>
   (p, batch) \<in> set (loadedEntityPathBatches s)
   \<or> (p = EntityPathDataFileInfo.filePath f
       \<and> fetchAndParseJSON reader (parseEntityPathBatch json) p = Some batch)"
  by (cases rule: loadEntityPathBatch_cases[of f s reader json]) (auto simp: logRead_def)

lemma foldl_loadEntityPathBatch_entries:
  "(p, batch) \<in> set (loadedEntityPathBatches (foldl (loadEntityPathBatch reader json) s files)) \<Longrightarrow>
   (p, batch) \<in> set (loadedEntityPathBatches s)
   \<or> (p \<in> set (map EntityPathDataFileInfo.filePath files)
       \<and> fetchAndParseJSON reader (parseEntityPathBatch json) p = Some batch)"
proof (induction files arbitrary: s)
  case Nil
  then show ?case by simp
next
  case (Cons f files)
  from Cons.IH[of "loadEntityPathBatch reader json s f"] Cons.prems
  show ?case using loadEntityPathBatch_entries[of p batch reader json s f] by auto
qed

lemma activation_entries:
  assumes "map_get rid (availableReplications s) = Some manifest"
    and "(p, batch) \<in> set (loadedEntityPathBatches (snd (setActiveReplication reader json rid s)))"
  shows "p \<in> set (map EntityPathDataFileInfo.filePath (entityPathDataFiles manifest))
     \<and> fetchAndParseJSON reader (parseEntityPathBatch json) p = Some batch"
  using assms(2)
    foldl_loadEntityPathBatch_entries[of p batch reader json
      "clearCaches (s\<lparr>activeReplicationId := Some rid\<rparr>)" "entityPathDataFiles manifest"]
  by (simp add: setActiveReplication_known[OF assms(1)] loadAllStatisticsFiles_frame
      clearCaches_def)

lemma indexed_in_some_batch:
  assumes "indexConsistent s" "entityId \<in> set (map fst (entityPathsById s))"
  shows "\<exists>p batch. (p, batch) \<in> set (loadedEntityPathBatches s) \<and> entityId \<in> set (map fst batch)"
proof -
  from assms(2) have "map_of (entityPathsById s) entityId \<noteq> None"
    by (simp add: map_of_eq_None_iff)
  with assms(1) have "unionOfBatches (loadedEntityPathBatches s) entityId \<noteq> None"
    by (simp add: indexConsistent_def)
  then have "entityId \<in> fst ` set (concat (map snd (loadedEntityPathBatches s)))"
    by (simp add: unionOfBatches_def map_of_eq_None_iff)
  then obtain e v where "(e, v) \<in> set (loadedEntityPathBatches s)" "entityId \<in> fst ` set v"
    by (auto simp: image_iff) (metis fst_conv prod.collapse snd_conv)
  then show ?thesis by auto
qed

subsection \<open>The contract of activation\<close>

text \<open>
  Claim C2. If the id is not a key of the registry, \<open>setActiveReplication\<close> returns
  false and the state is unchanged. If it is a key, the call returns true and records
  the id as active; the registry and the shared documents are unchanged; the batch cache
  holds exactly the decoded documents of the entity-path files of the manifest, the
  statistics cache exactly those of its statistics files, and the entity index is the
  union of the cached batches, whatever the caches held before; and the reads made by the
  call are the reads of every entity-path file and every statistics file of the manifest.
\<close>

theorem setActiveReplication_contract:
  assumes "completesAll reader"
  shows "(map_get rid (availableReplications s) = None \<longrightarrow>
           setActiveReplication reader json rid s = (False, s))
   \<and> (\<forall>manifest. map_get rid (availableReplications s) = Some manifest \<longrightarrow>
         fst (setActiveReplication reader json rid s) = True
         \<and> activeReplicationId (snd (setActiveReplication reader json rid s)) = Some rid
         \<and> availableReplications (snd (setActiveReplication reader json rid s))
             = availableReplications s
         \<and> modelLayout (snd (setActiveReplication reader json rid s)) = modelLayout s
         \<and> sharedVisualConfig (snd (setActiveReplication reader json rid s))
             = sharedVisualConfig s
         \<and> (\<forall>p. map_of (loadedEntityPathBatches (snd (setActiveReplication reader json rid s))) p
               = (if p \<in> set (map EntityPathDataFileInfo.filePath (entityPathDataFiles manifest))
                  then fetchAndParseJSON reader (parseEntityPathBatch json) p else None))
         \<and> (\<forall>entityId.
               map_of (entityPathsById (snd (setActiveReplication reader json rid s))) entityId
               = map_option PathValue
                   (unionOfBatches
                      (loadedEntityPathBatches (snd (setActiveReplication reader json rid s)))
                      entityId))
         \<and> (\<forall>p. map_of (loadedStatisticsFiles (snd (setActiveReplication reader json rid s))) p
               = (if p \<in> set (map StatisticsDataFileInfo.filePath (statisticsDataFiles manifest))
                  then fetchAndParseJSON reader (parseStatisticsFile json) p else None))
         \<and> prefix (readLog s) (readLog (snd (setActiveReplication reader json rid s)))
         \<and> set (newReads s (snd (setActiveReplication reader json rid s)))
             = Pair EntityPathBatchDocument
                 ` set (map EntityPathDataFileInfo.filePath (entityPathDataFiles manifest))
               \<union> Pair StatisticsDocument
                 ` set (map StatisticsDataFileInfo.filePath (statisticsDataFiles manifest)))"
proof (intro conjI allI impI)
  show "setActiveReplication reader json rid s = (False, s)"
    if "map_get rid (availableReplications s) = None"
    using that by (rule setActiveReplication_unknown)
next
  fix manifest
  assume m: "map_get rid (availableReplications s) = Some manifest"
  have r: "setActiveReplication reader json rid s
      = (fst (setActiveReplication reader json rid s), snd (setActiveReplication reader json rid s))"
    by simp
  note e = activation_effect[OF assms m r]
  show "fst (setActiveReplication reader json rid s) = True" using e(1) by simp
  show "activeReplicationId (snd (setActiveReplication reader json rid s)) = Some rid"
    by (rule e(2))
  show "availableReplications (snd (setActiveReplication reader json rid s))
      = availableReplications s" by (rule e(3))
  show "modelLayout (snd (setActiveReplication reader json rid s)) = modelLayout s"
    by (rule e(4))
  show "sharedVisualConfig (snd (setActiveReplication reader json rid s)) = sharedVisualConfig s"
    by (rule e(5))
  show "map_of (loadedEntityPathBatches (snd (setActiveReplication reader json rid s))) p
      = (if p \<in> set (map EntityPathDataFileInfo.filePath (entityPathDataFiles manifest))
         then fetchAndParseJSON reader (parseEntityPathBatch json) p else None)" for p
    by (rule e(6))
  show "map_of (entityPathsById (snd (setActiveReplication reader json rid s))) entityId
      = map_option PathValue
          (unionOfBatches (loadedEntityPathBatches (snd (setActiveReplication reader json rid s)))
             entityId)" for entityId
    using e(7) by (simp add: indexConsistent_def)
  show "map_of (loadedStatisticsFiles (snd (setActiveReplication reader json rid s))) p
      = (if p \<in> set (map StatisticsDataFileInfo.filePath (statisticsDataFiles manifest))
         then fetchAndParseJSON reader (parseStatisticsFile json) p else None)" for p
    by (rule e(8))
  show "prefix (readLog s) (readLog (snd (setActiveReplication reader json rid s)))"
    by (rule e(9))
  show "set (newReads s (snd (setActiveReplication reader json rid s)))
      = Pair EntityPathBatchDocument
          ` set (map EntityPathDataFileInfo.filePath (entityPathDataFiles manifest))
        \<union> Pair StatisticsDocument
          ` set (map StatisticsDataFileInfo.filePath (statisticsDataFiles manifest))"
    by (rule e(10))
qed

text \<open>
  Claim C3. After a successful activation of \<open>r1\<close> followed by a successful activation
  of \<open>r2\<close>, every loaded entity id occurs in a batch file of the manifest of \<open>r2\<close>,
  every cached statistics file is a file of that manifest, and the caches are the ones
  that activating \<open>r2\<close> alone would have produced. The two ids need not differ.
\<close>

theorem activation_no_leakage:
  assumes "completesAll reader"
    and "setActiveReplication reader json r1 s = (True, s1)"
    and "setActiveReplication reader json r2 s1 = (True, s2)"
  shows "\<exists>manifest2. map_get r2 (availableReplications s) = Some manifest2
     \<and> (\<forall>entityId \<in> set (getLoadedEntityIds s2).
           \<exists>file \<in> set (entityPathDataFiles manifest2). \<exists>batch.
             fetchAndParseJSON reader (parseEntityPathBatch json)
               (EntityPathDataFileInfo.filePath file) = Some batch
             \<and> entityId \<in> set (map fst batch))
     \<and> (\<forall>p \<in> set (map fst (loadedStatisticsFiles s2)).
           p \<in> set (map StatisticsDataFileInfo.filePath (statisticsDataFiles manifest2))
           \<and> map_of (loadedStatisticsFiles s2) p
               = fetchAndParseJSON reader (parseStatisticsFile json) p)
     \<and> sameCaches s2 (snd (setActiveReplication reader json r2 s))"
proof -
  from assms(2) obtain manifest1 where m1: "map_get r1 (availableReplications s) = Some manifest1"
    using setActiveReplication_True by blast
  from assms(3) obtain manifest2 where m2: "map_get r2 (availableReplications s1) = Some manifest2"
    using setActiveReplication_True by blast
  have reg: "availableReplications s1 = availableReplications s"
    using activation_effect(3)[OF assms(1) m1 assms(2)] .
  with m2 have m2s: "map_get r2 (availableReplications s) = Some manifest2" by simp
  note e = activation_effect[OF assms(1) m2 assms(3)]
  have s2: "s2 = snd (setActiveReplication reader json r2 s1)" using assms(3) by simp
  have ids: "\<exists>file \<in> set (entityPathDataFiles manifest2). \<exists>batch.
      fetchAndParseJSON reader (parseEntityPathBatch json)
        (EntityPathDataFileInfo.filePath file) = Some batch
      \<and> entityId \<in> set (map fst batch)"
    if "entityId \<in> set (getLoadedEntityIds s2)" for entityId
  proof -
    from that e(7) obtain p batch where
      in_cache: "(p, batch) \<in> set (loadedEntityPathBatches s2)"
      and has: "entityId \<in> set (map fst batch)"
      using indexed_in_some_batch[of s2 entityId] by (auto simp: getLoadedEntityIds_def)
    from activation_entries[OF m2, of p batch reader json] in_cache
    have "p \<in> set (map EntityPathDataFileInfo.filePath (entityPathDataFiles manifest2))"
      and "fetchAndParseJSON reader (parseEntityPathBatch json) p = Some batch"
      by (simp_all add: s2)
    with has show ?thesis by auto
  qed
  have stats: "p \<in> set (map StatisticsDataFileInfo.filePath (statisticsDataFiles manifest2))
      \<and> map_of (loadedStatisticsFiles s2) p
          = fetchAndParseJSON reader (parseStatisticsFile json) p"
    if "p \<in> set (map fst (loadedStatisticsFiles s2))" for p
  proof -
    from that have "map_of (loadedStatisticsFiles s2) p \<noteq> None"
      by (simp add: map_of_eq_None_iff)
    then show ?thesis using e(8)[of p] by (auto split: if_splits)
  qed
  have same: "sameCaches s2 (snd (setActiveReplication reader json r2 s))"
    using setActiveReplication_same[OF m2 m2s, of reader json] by (simp add: s2)
  from m2s ids stats same show ?thesis by blast
qed

text \<open>
  Claim C8. Activating a registered id a second time returns true, leaves the entity
  index, the batch cache and the statistics cache as the first activation left them, and
  makes the same reads again.
\<close>

theorem reactivation_same_state:
  assumes "map_get rid (availableReplications s) = Some manifest"
    and "s1 = snd (setActiveReplication reader json rid s)"
    and "s2 = snd (setActiveReplication reader json rid s1)"
  shows "fst (setActiveReplication reader json rid s1) = True
     \<and> entityPathsById s2 = entityPathsById s1
     \<and> loadedEntityPathBatches s2 = loadedEntityPathBatches s1
     \<and> loadedStatisticsFiles s2 = loadedStatisticsFiles s1
     \<and> activeReplicationId s2 = activeReplicationId s1
     \<and> newReads s1 s2 = newReads s s1"
proof -
  have reg: "availableReplications s1 = availableReplications s"
    and act: "activeReplicationId s1 = Some rid"
    by (simp_all add: assms(2) setActiveReplication_known[OF assms(1)]
        loadAllStatisticsFiles_frame foldl_loadEntityPathBatch_frame clearCaches_def)
  with assms(1) have m1: "map_get rid (availableReplications s1) = Some manifest" by simp
  have act2: "activeReplicationId s2 = Some rid"
    by (simp add: assms(3) setActiveReplication_known[OF m1]
        loadAllStatisticsFiles_frame foldl_loadEntityPathBatch_frame clearCaches_def)
  from setActiveReplication_same[OF m1 assms(1), of reader json]
  have "sameCaches s2 s1" "newReads s1 s2 = newReads s s1"
    by (simp_all add: assms(2,3))
  with act act2 show ?thesis
    by (simp add: sameCaches_def setActiveReplication_known[OF m1])
qed

lemmas example_defs =
  exampleReader_def exampleJSON_def exampleManifest_def fetchAndParseJSON_def
  manifestPathOf_def map_has_def map_get_def logRead_def clearCaches_def Let_def
  loadEntityPathBatch_def loadAllStatisticsFiles_def finishStatisticsLoad_def
  indexBatch_def exampleBatch1_def exampleBatch2_def

lemma exampleReader_completesAll: "completesAll exampleReader"
  by (simp add: completesAll_def exampleReader_def)

lemma exampleDiscovered_lookup:
  "map_get (Fin 1) (availableReplications exampleDiscovered)
     = Some (exampleManifest (Fin 1) ''r1/paths.json'' ''r1/queue.json'')"
  "map_get (Fin 2) (availableReplications exampleDiscovered) = None"
  "map_get (Fin 3) (availableReplications exampleDiscovered)
     = Some (exampleManifest (Fin 3) ''r3/paths.json'' ''r3/queue.json'')"
  by (simp_all add: exampleDiscovered_registry map_get_def)

lemma exampleActive_registry:
  "availableReplications exampleActive = availableReplications exampleDiscovered"
  by (simp add: exampleActive_def setActiveReplication_known[OF exampleDiscovered_lookup(1)]
      loadAllStatisticsFiles_frame foldl_loadEntityPathBatch_frame clearCaches_def)

lemma exampleActive_result:
  "setActiveReplication exampleReader exampleJSON (Fin 1) exampleDiscovered = (True, exampleActive)"
  by (simp add: exampleActive_def setActiveReplication_known[OF exampleDiscovered_lookup(1)])

lemma exampleSwitched_result:
  "setActiveReplication exampleReader exampleJSON (Fin 3) exampleActive = (True, exampleSwitched)"
  using exampleDiscovered_lookup(3)
  by (simp add: exampleSwitched_def exampleActive_registry setActiveReplication_known)

lemma exampleActive_entities:
  "loadedEntityPathBatches exampleActive = [(''r1/paths.json'', exampleBatch1)]"
  "entityPathsById exampleActive
     = [(''e1'', PathValue exampleEntityPath1), (''e2'', PathValue exampleEntityPath2)]"
  by (simp_all add: exampleActive_def setActiveReplication_known[OF exampleDiscovered_lookup(1)]
      example_defs)

lemma exampleSwitched_caches:
  "loadedEntityPathBatches exampleSwitched = [(''r3/paths.json'', exampleBatch2)]"
  "entityPathsById exampleSwitched = [(''e3'', PathValue exampleEntityPath2)]"
  "loadedStatisticsFiles exampleSwitched = [(''r3/queue.json'', exampleStatistics (Fin 3) [])]"
  using exampleDiscovered_lookup(3)
  by (simp_all add: exampleSwitched_def exampleActive_registry setActiveReplication_known
      example_defs)

lemma exampleActive_reads:
  "newReads exampleDiscovered exampleActive
     = [(EntityPathBatchDocument, ''r1/paths.json''), (StatisticsDocument, ''r1/queue.json'')]"
  by (simp add: exampleActive_def setActiveReplication_known[OF exampleDiscovered_lookup(1)]
      example_defs newReads_def)

theorem setActiveReplication_contract_witness:
  "completesAll exampleReader
   \<and> map_get (Fin 2) (availableReplications exampleDiscovered) = None
   \<and> setActiveReplication exampleReader exampleJSON (Fin 2) exampleDiscovered
       = (False, exampleDiscovered)
   \<and> map_get (Fin 1) (availableReplications exampleDiscovered)
       = Some (exampleManifest (Fin 1) ''r1/paths.json'' ''r1/queue.json'')
   \<and> fst (setActiveReplication exampleReader exampleJSON (Fin 1) exampleDiscovered) = True
   \<and> activeReplicationId exampleActive = Some (Fin 1)
   \<and> map_of (loadedEntityPathBatches exampleActive) ''r1/paths.json'' = Some exampleBatch1
   \<and> map_of (loadedEntityPathBatches exampleActive) ''r3/paths.json'' = None
   \<and> map_of (loadedStatisticsFiles exampleActive) ''r1/queue.json''
       = Some (exampleStatistics (Fin 1) exampleSeries)
   \<and> set (newReads exampleDiscovered exampleActive)
       = {(EntityPathBatchDocument, ''r1/paths.json''), (StatisticsDocument, ''r1/queue.json'')}"
proof -
  note t2 = setActiveReplication_contract[OF exampleReader_completesAll,
      of "Fin 2" exampleDiscovered exampleJSON]
  note t1 = setActiveReplication_contract[OF exampleReader_completesAll,
      of "Fin 1" exampleDiscovered exampleJSON]
  from t2 have unknown: "setActiveReplication exampleReader exampleJSON (Fin 2) exampleDiscovered
      = (False, exampleDiscovered)"
    by (simp add: exampleDiscovered_lookup)
  from t1 have known: "fst (setActiveReplication exampleReader exampleJSON (Fin 1) exampleDiscovered) = True"
    "activeReplicationId exampleActive = Some (Fin 1)"
    "set (newReads exampleDiscovered exampleActive)
       = {(EntityPathBatchDocument, ''r1/paths.json''), (StatisticsDocument, ''r1/queue.json'')}"
    by (simp_all add: exampleDiscovered_lookup exampleActive_def[symmetric] exampleManifest_def
        insert_commute)
  show ?thesis
    using unknown known
    by (simp add: exampleReader_completesAll exampleDiscovered_lookup exampleActive_entities
        exampleActive_statistics)
qed

theorem activation_no_leakage_witness:
  "completesAll exampleReader
   \<and> setActiveReplication exampleReader exampleJSON (Fin 1) exampleDiscovered = (True, exampleActive)
   \<and> setActiveReplication exampleReader exampleJSON (Fin 3) exampleActive = (True, exampleSwitched)
   \<and> getLoadedEntityIds exampleActive = [''e1'', ''e2'']
   \<and> getLoadedEntityIds exampleSwitched = [''e3'']
   \<and> map fst (loadedStatisticsFiles exampleSwitched) = [''r3/queue.json'']
   \<and> sameCaches exampleSwitched
        (snd (setActiveReplication exampleReader exampleJSON (Fin 3) exampleDiscovered))"
proof -
  from activation_no_leakage[OF exampleReader_completesAll exampleActive_result
      exampleSwitched_result]
  have "sameCaches exampleSwitched
      (snd (setActiveReplication exampleReader exampleJSON (Fin 3) exampleDiscovered))"
    by blast
  then show ?thesis
    by (simp add: exampleReader_completesAll exampleActive_result exampleSwitched_result
        getLoadedEntityIds_def exampleActive_entities exampleSwitched_caches)
qed

theorem reactivation_same_state_witness:
  "map_get (Fin 1) (availableReplications exampleDiscovered)
     = Some (exampleManifest (Fin 1) ''r1/paths.json'' ''r1/queue.json'')
   \<and> exampleActive = snd (setActiveReplication exampleReader exampleJSON (Fin 1) exampleDiscovered)
   \<and> exampleReactivated = snd (setActiveReplication exampleReader exampleJSON (Fin 1) exampleActive)
   \<and> fst (setActiveReplication exampleReader exampleJSON (Fin 1) exampleActive) = True
   \<and> entityPathsById exampleReactivated
       = [(''e1'', PathValue exampleEntityPath1), (''e2'', PathValue exampleEntityPath2)]
   \<and> loadedEntityPathBatches exampleReactivated = [(''r1/paths.json'', exampleBatch1)]
   \<and> loadedStatisticsFiles exampleReactivated
       = [(''r1/queue.json'', exampleStatistics (Fin 1) exampleSeries)]
   \<and> newReads exampleActive exampleReactivated
       = [(EntityPathBatchDocument, ''r1/paths.json''), (StatisticsDocument, ''r1/queue.json'')]"
  using reactivation_same_state[OF exampleDiscovered_lookup(1) exampleActive_def
      exampleReactivated_def]
  by (simp add: exampleDiscovered_lookup exampleActive_def[symmetric]
      exampleReactivated_def[symmetric] exampleActive_entities exampleActive_statistics
      exampleActive_reads)

section \<open>Manifest discovery\<close>

lemma readsOf_append [simp]: "readsOf doc (xs @ ys) = readsOf doc xs @ readsOf doc ys"
  by (simp add: readsOf_def)

lemma readsOf_Nil [simp]: "readsOf doc [] = []"
  by (simp add: readsOf_def)

lemma readsOf_Cons [simp]:
  "readsOf doc ((d, p) # xs) = (if d = doc then p # readsOf doc xs else readsOf doc xs)"
  by (simp add: readsOf_def)

lemma discoverStep_ineligible: "\<not> eligible item \<Longrightarrow> discoverStep reader json s item = s"
  by (auto simp: discoverStep_def discoverItem_def eligible_def)

text \<open>The effect of one iteration, field by field.\<close>

lemma discoverStep_effect:
  "availableReplications (discoverStep reader json s item) =
     (case manifestOf reader json item of
        None \<Rightarrow> availableReplications s
      | Some manifest \<Rightarrow> register (availableReplications s) manifest)"
  "modelLayout (discoverStep reader json s item) =
     (case layoutFetch reader json s item of
        None \<Rightarrow> modelLayout s
      | Some p \<Rightarrow> fetchAndParseJSON reader (parseModelLayout json) p)"
  "sharedVisualConfig (discoverStep reader json s item) =
     (case configFetch reader json s item of
        None \<Rightarrow> sharedVisualConfig s
      | Some p \<Rightarrow> fetchAndParseJSON reader (parseSharedVisualConfig json) p)"
  "readLog (discoverStep reader json s item) =
     readLog s
     @ (if eligible item then [(ManifestDocument, manifestPathOf (FileListItem.name item))] else [])
     @ (case layoutFetch reader json s item of
          None \<Rightarrow> [] | Some p \<Rightarrow> [(ModelLayoutDocument, p)])
     @ (case configFetch reader json s item of
          None \<Rightarrow> [] | Some p \<Rightarrow> [(SharedVisualConfigDocument, p)])"
  "activeReplicationId (discoverStep reader json s item) = activeReplicationId s"
  "loadedEntityPathBatches (discoverStep reader json s item) = loadedEntityPathBatches s"
  "entityPathsById (discoverStep reader json s item) = entityPathsById s"
  "loadedStatisticsFiles (discoverStep reader json s item) = loadedStatisticsFiles s"
  by (auto simp: discoverStep_def discoverItem_def manifestOf_def layoutFetch_def
      configFetch_def eligible_def register_def logRead_def Let_def
      split: option.splits manifest_value.splits)

lemma discover_filter_eligible:
  "foldl (discoverStep reader json) s items
     = foldl (discoverStep reader json) s (filter eligible items)"
  by (induction items arbitrary: s) (simp_all add: discoverStep_ineligible)

lemma discover_registry:
  "availableReplications (foldl (discoverStep reader json) s items)
     = foldl register (availableReplications s) (List.map_filter (manifestOf reader json) items)"
proof (induction items arbitrary: s)
  case Nil
  then show ?case by (simp add: List.map_filter_simps)
next
  case (Cons item items)
  show ?case
    by (simp add: Cons discoverStep_effect(1) List.map_filter_simps split: option.splits)
qed

lemma discover_caches:
  "activeReplicationId (foldl (discoverStep reader json) s items) = activeReplicationId s"
  "loadedEntityPathBatches (foldl (discoverStep reader json) s items) = loadedEntityPathBatches s"
  "entityPathsById (foldl (discoverStep reader json) s items) = entityPathsById s"
  "loadedStatisticsFiles (foldl (discoverStep reader json) s items) = loadedStatisticsFiles s"
  by (induction items arbitrary: s) (simp_all add: discoverStep_effect)

lemma discover_log:
  "\<exists>new. readLog (foldl (discoverStep reader json) s items) = readLog s @ new
     \<and> readsOf ManifestDocument new
         = map (\<lambda>item. manifestPathOf (FileListItem.name item)) (filter eligible items)"
proof (induction items arbitrary: s)
  case Nil
  then show ?case by simp
next
  case (Cons item items)
  from Cons[of "discoverStep reader json s item"] obtain new where
    "readLog (foldl (discoverStep reader json) (discoverStep reader json s item) items)
       = readLog (discoverStep reader json s item) @ new"
    "readsOf ManifestDocument new
       = map (\<lambda>item. manifestPathOf (FileListItem.name item)) (filter eligible items)"
    by blast
  then show ?case
    by (auto simp: discoverStep_effect(4) split: option.splits)
qed

subsection \<open>The reads of a discovery\<close>

lemma newReads_self [simp]: "newReads s s = []"
  by (simp add: newReads_def)

lemma newReads_trans:
  "prefix (readLog a) (readLog b) \<Longrightarrow> prefix (readLog b) (readLog c) \<Longrightarrow>
   newReads a c = newReads a b @ newReads b c"
  by (auto simp: newReads_def prefix_def)

lemma discoverStep_prefix: "prefix (readLog s) (readLog (discoverStep reader json s item))"
  by (simp add: discoverStep_effect(4))

lemma discover_prefix: "prefix (readLog s) (readLog (foldl (discoverStep reader json) s items))"
proof (induction items arbitrary: s)
  case Nil
  then show ?case by simp
next
  case (Cons item items)
  from discoverStep_prefix Cons[of "discoverStep reader json s item"]
  show ?case using prefix_order.trans by fastforce
qed

lemma discover_newReads_Cons:
  "newReads s (foldl (discoverStep reader json) s (item # items))
     = newReads s (discoverStep reader json s item)
       @ newReads (discoverStep reader json s item)
           (foldl (discoverStep reader json) (discoverStep reader json s item) items)"
  using newReads_trans[OF discoverStep_prefix discover_prefix] by simp

lemma discoverStep_layout_reads:
  "readsOf ModelLayoutDocument (newReads s (discoverStep reader json s item))
     = (case layoutFetch reader json s item of None \<Rightarrow> [] | Some p \<Rightarrow> [p])"
  by (simp add: newReads_def discoverStep_effect(4) split: option.splits)

lemma discoverStep_config_reads:
  "readsOf SharedVisualConfigDocument (newReads s (discoverStep reader json s item))
     = (case configFetch reader json s item of None \<Rightarrow> [] | Some p \<Rightarrow> [p])"
  by (simp add: newReads_def discoverStep_effect(4) split: option.splits)

lemma discoverStep_manifest_reads:
  "readsOf ManifestDocument (newReads s (discoverStep reader json s item))
     = (if eligible item then [manifestPathOf (FileListItem.name item)] else [])"
  by (simp add: newReads_def discoverStep_effect(4) split: option.splits)

lemma discover_manifest_reads:
  "readsOf ManifestDocument (newReads s (foldl (discoverStep reader json) s items))
     = map (\<lambda>item. manifestPathOf (FileListItem.name item)) (filter eligible items)"
  by (induction items arbitrary: s)
     (simp_all add: discover_newReads_Cons discoverStep_manifest_reads del: foldl_Cons)

subsection \<open>The shared documents\<close>

lemma layoutFetch_unset: "layoutFetch reader json s item = Some p \<Longrightarrow> modelLayout s = None"
  by (auto simp: layoutFetch_def split: option.splits if_splits)

lemma configFetch_unset: "configFetch reader json s item = Some p \<Longrightarrow> sharedVisualConfig s = None"
  by (auto simp: configFetch_def split: option.splits if_splits)

lemma layoutFetch_set: "modelLayout s \<noteq> None \<Longrightarrow> layoutFetch reader json s item = None"
  by (auto simp: layoutFetch_def split: option.splits)

lemma configFetch_set: "sharedVisualConfig s \<noteq> None \<Longrightarrow> configFetch reader json s item = None"
  by (auto simp: configFetch_def split: option.splits)

lemma discover_layout:
  fixes reader json
  defines "fetch \<equiv> fetchAndParseJSON reader (parseModelLayout json)"
  shows "(modelLayout s \<noteq> None \<longrightarrow>
            modelLayout (foldl (discoverStep reader json) s items) = modelLayout s
            \<and> readsOf ModelLayoutDocument
                 (newReads s (foldl (discoverStep reader json) s items)) = [])
     \<and> (modelLayout s = None \<longrightarrow>
            list_all (\<lambda>p. fetch p = None)
              (butlast (readsOf ModelLayoutDocument
                 (newReads s (foldl (discoverStep reader json) s items))))
            \<and> modelLayout (foldl (discoverStep reader json) s items)
                = (if readsOf ModelLayoutDocument
                        (newReads s (foldl (discoverStep reader json) s items)) = []
                   then None
                   else fetch (last (readsOf ModelLayoutDocument
                          (newReads s (foldl (discoverStep reader json) s items))))))"
proof (induction items arbitrary: s)
  case Nil
  then show ?case by simp
next
  case (Cons item items)
  let ?s1 = "discoverStep reader json s item"
  let ?L1 = "readsOf ModelLayoutDocument
               (newReads ?s1 (foldl (discoverStep reader json) ?s1 items))"
  note IH = Cons[of ?s1]
  have L: "readsOf ModelLayoutDocument
             (newReads s (foldl (discoverStep reader json) ?s1 items))
           = (case layoutFetch reader json s item of None \<Rightarrow> [] | Some p \<Rightarrow> [p]) @ ?L1"
    using discover_newReads_Cons[of s reader json item items]
    by (simp add: discoverStep_layout_reads)
  show ?case
  proof (cases "layoutFetch reader json s item")
    case None
    then have "modelLayout ?s1 = modelLayout s"
      by (simp add: discoverStep_effect(2))
    with None IH show ?thesis by (simp add: L)
  next
    case (Some p)
    then have unset: "modelLayout s = None" by (rule layoutFetch_unset)
    from Some have s1: "modelLayout ?s1 = fetch p"
      by (simp add: discoverStep_effect(2) fetch_def)
    show ?thesis
    proof (cases "fetch p")
      case None
      with s1 IH unset Some show ?thesis by (auto simp: L)
    next
      case (Some l)
      with s1 IH have "?L1 = []"
        and "modelLayout (foldl (discoverStep reader json) ?s1 items) = Some l"
        by simp_all
      with unset Some \<open>layoutFetch reader json s item = Some p\<close> show ?thesis
        by (simp add: L)
    qed
  qed
qed

lemma discover_config:
  fixes reader json
  defines "fetch \<equiv> fetchAndParseJSON reader (parseSharedVisualConfig json)"
  shows "(sharedVisualConfig s \<noteq> None \<longrightarrow>
            sharedVisualConfig (foldl (discoverStep reader json) s items) = sharedVisualConfig s
            \<and> readsOf SharedVisualConfigDocument
                 (newReads s (foldl (discoverStep reader json) s items)) = [])
     \<and> (sharedVisualConfig s = None \<longrightarrow>
            list_all (\<lambda>p. fetch p = None)
              (butlast (readsOf SharedVisualConfigDocument
                 (newReads s (foldl (discoverStep reader json) s items))))
            \<and> sharedVisualConfig (foldl (discoverStep reader json) s items)
                = (if readsOf SharedVisualConfigDocument
                        (newReads s (foldl (discoverStep reader json) s items)) = []
                   then None
                   else fetch (last (readsOf SharedVisualConfigDocument
                          (newReads s (foldl (discoverStep reader json) s items))))))"
proof (induction items arbitrary: s)
  case Nil
  then show ?case by simp
next
  case (Cons item items)
  let ?s1 = "discoverStep reader json s item"
  let ?L1 = "readsOf SharedVisualConfigDocument
               (newReads ?s1 (foldl (discoverStep reader json) ?s1 items))"
  note IH = Cons[of ?s1]
  have L: "readsOf SharedVisualConfigDocument
             (newReads s (foldl (discoverStep reader json) ?s1 items))
           = (case configFetch reader json s item of None \<Rightarrow> [] | Some p \<Rightarrow> [p]) @ ?L1"
    using discover_newReads_Cons[of s reader json item items]
    by (simp add: discoverStep_config_reads)
  show ?case
  proof (cases "configFetch reader json s item")
    case None
    then have "sharedVisualConfig ?s1 = sharedVisualConfig s"
      by (simp add: discoverStep_effect(3))
    with None IH show ?thesis by (simp add: L)
  next
    case (Some p)
    then have unset: "sharedVisualConfig s = None" by (rule configFetch_unset)
    from Some have s1: "sharedVisualConfig ?s1 = fetch p"
      by (simp add: discoverStep_effect(3) fetch_def)
    show ?thesis
    proof (cases "fetch p")
      case None
      with s1 IH unset Some show ?thesis by (auto simp: L)
    next
      case (Some c)
      with s1 IH have "?L1 = []"
        and "sharedVisualConfig (foldl (discoverStep reader json) ?s1 items) = Some c"
        by simp_all
      with unset Some \<open>configFetch reader json s item = Some p\<close> show ?thesis
        by (simp add: L)
    qed
  qed
qed

subsection \<open>The loop and the error\<close>

lemma discoverItem_error:
  "fst (discoverItem reader json s item)
     = (if throwsAt reader json item then Some TypeError else None)"
  by (auto simp: discoverItem_def throwsAt_def eligible_def Let_def
      split: option.splits manifest_value.splits)

lemma discoverItem_pair:
  "discoverItem reader json s item
     = (if throwsAt reader json item then Some TypeError else None,
        discoverStep reader json s item)"
  using discoverItem_error[of reader json s item]
  by (simp add: discoverStep_def prod_eq_iff)

lemma discoverLoop_scanned:
  "discoverLoop reader json s items
     = (if list_ex (throwsAt reader json) items then Some TypeError else None,
        foldl (discoverStep reader json) s (scanned reader json items))"
  by (induction items arbitrary: s) (simp_all add: discoverItem_pair)

lemma scanned_all:
  "\<not> list_ex (throwsAt reader json) items \<Longrightarrow> scanned reader json items = items"
  by (induction items) simp_all

lemma discovery_unlisted:
  "listDirectoryContents reader ''replications'' = None \<Longrightarrow>
   initializeOrDiscoverReplications reader json s = (None, s)"
  by (simp add: initializeOrDiscoverReplications_def)

lemma discovery_listed:
  "listDirectoryContents reader ''replications'' = Some items \<Longrightarrow>
   initializeOrDiscoverReplications reader json s
     = (if list_ex (throwsAt reader json) items then Some TypeError else None,
        foldl (discoverStep reader json) s (scanned reader json items))"
  by (simp add: initializeOrDiscoverReplications_def discoverLoop_scanned)

lemma discovery_state:
  "snd (initializeOrDiscoverReplications reader json s)
     = foldl (discoverStep reader json) s
         (case listDirectoryContents reader ''replications'' of
            None \<Rightarrow> [] | Some items \<Rightarrow> scanned reader json items)"
  by (simp add: discovery_unlisted discovery_listed split: option.splits)

lemma discovery_caches:
  "activeReplicationId (snd (initializeOrDiscoverReplications reader json s))
     = activeReplicationId s"
  "loadedEntityPathBatches (snd (initializeOrDiscoverReplications reader json s))
     = loadedEntityPathBatches s"
  "entityPathsById (snd (initializeOrDiscoverReplications reader json s)) = entityPathsById s"
  "loadedStatisticsFiles (snd (initializeOrDiscoverReplications reader json s))
     = loadedStatisticsFiles s"
  by (simp_all only: discovery_state discover_caches)

text \<open>
  What holds of the shared documents in every discovery, also one that throws. A shared
  model layout that is set is neither overwritten nor fetched again, whatever the state
  in which the discovery starts, so also across repeated discoveries. While it is unset,
  it is fetched for each manifest that declares a non-empty path, in the order of the
  listing, until a fetch succeeds: every fetch but the last one made has failed, and the
  layout after the discovery is the result of the last fetch made. The same holds for
  the shared visual config.
\<close>

lemma shared_documents_kept_once_set:
  "modelLayout s \<noteq> None \<Longrightarrow>
     modelLayout (snd (initializeOrDiscoverReplications reader json s)) = modelLayout s
     \<and> readsOf ModelLayoutDocument
          (newReads s (snd (initializeOrDiscoverReplications reader json s))) = []"
  "sharedVisualConfig s \<noteq> None \<Longrightarrow>
     sharedVisualConfig (snd (initializeOrDiscoverReplications reader json s))
       = sharedVisualConfig s
     \<and> readsOf SharedVisualConfigDocument
          (newReads s (snd (initializeOrDiscoverReplications reader json s))) = []"
  unfolding discovery_state
  using discover_layout[of s reader json] discover_config[of s reader json] by blast+

lemma shared_documents_fetched_until_set:
  "modelLayout s = None \<Longrightarrow>
     list_all (\<lambda>p. fetchAndParseJSON reader (parseModelLayout json) p = None)
       (butlast (readsOf ModelLayoutDocument
          (newReads s (snd (initializeOrDiscoverReplications reader json s)))))
     \<and> modelLayout (snd (initializeOrDiscoverReplications reader json s))
         = (if readsOf ModelLayoutDocument
                 (newReads s (snd (initializeOrDiscoverReplications reader json s))) = []
            then None
            else fetchAndParseJSON reader (parseModelLayout json)
                   (last (readsOf ModelLayoutDocument
                      (newReads s (snd (initializeOrDiscoverReplications reader json s))))))"
  "sharedVisualConfig s = None \<Longrightarrow>
     list_all (\<lambda>p. fetchAndParseJSON reader (parseSharedVisualConfig json) p = None)
       (butlast (readsOf SharedVisualConfigDocument
          (newReads s (snd (initializeOrDiscoverReplications reader json s)))))
     \<and> sharedVisualConfig (snd (initializeOrDiscoverReplications reader json s))
         = (if readsOf SharedVisualConfigDocument
                 (newReads s (snd (initializeOrDiscoverReplications reader json s))) = []
            then None
            else fetchAndParseJSON reader (parseSharedVisualConfig json)
                   (last (readsOf SharedVisualConfigDocument
                      (newReads s (snd (initializeOrDiscoverReplications reader json s))))))"
  unfolding discovery_state
  using discover_layout[of s reader json] discover_config[of s reader json] by blast+

text \<open>
  What holds of the scan. If the \<open>replications\<close> directory cannot be listed, discovery
  leaves the state as it is and returns without an error. Otherwise the call throws
  exactly when the iteration of some entry throws; the entries scanned are those up to
  the first one that throws; among them, the entries that are not directories or do not
  start with \<open>rep_\<close> have no effect; the manifests read are
  \<open>replications/<name>/animation_manifest_<name>.json\<close> for the eligible entries
  scanned, in the order of the listing; and the registry after the scan is the registry
  before it with the manifests that were read and decoded added in that order.
\<close>

lemma manifestPathOf_string:
  "manifestPathOf itemName
     = ''replications/'' @ itemName @ ''/animation_manifest_'' @ itemName @ ''.json''"
  by (simp add: manifestPathOf_def)

lemma discovery_scan:
  assumes "listDirectoryContents reader ''replications'' = Some items"
  shows "fst (initializeOrDiscoverReplications reader json s)
           = (if list_ex (throwsAt reader json) items then Some TypeError else None)"
    and "snd (initializeOrDiscoverReplications reader json s)
           = foldl (discoverStep reader json) s (filter eligible (scanned reader json items))"
    and "availableReplications (snd (initializeOrDiscoverReplications reader json s))
           = foldl register (availableReplications s)
               (List.map_filter (manifestOf reader json) (scanned reader json items))"
    and "readsOf ManifestDocument
           (newReads s (snd (initializeOrDiscoverReplications reader json s)))
           = map (\<lambda>item. ''replications/'' @ FileListItem.name item @ ''/animation_manifest_''
                          @ FileListItem.name item @ ''.json'')
               (filter eligible (scanned reader json items))"
  using discover_filter_eligible[of reader json s "scanned reader json items"]
    discover_registry[of reader json s "scanned reader json items"]
    discover_manifest_reads[of s reader json "scanned reader json items"]
  by (simp_all add: discovery_listed[OF assms] manifestPathOf_def)

lemma discovery_scan_no_throw:
  assumes "listDirectoryContents reader ''replications'' = Some items"
    and "\<not> list_ex (throwsAt reader json) items"
  shows "initializeOrDiscoverReplications reader json s
           = (None, foldl (discoverStep reader json) s (filter eligible items))"
    and "availableReplications (snd (initializeOrDiscoverReplications reader json s))
           = foldl register (availableReplications s)
               (List.map_filter (manifestOf reader json) items)"
  using discovery_scan(2,3)[OF assms(1), of json s] discovery_listed[OF assms(1), of json s]
    scanned_all[OF assms(2)] assms(2)
  by (simp_all add: prod_eq_iff)

lemmas discovery_defs =
  initializeOrDiscoverReplications_def discoverItem_def startsWith_def manifestPathOf_def
  fetchAndParseJSON_def logRead_def AnimationData_new_def Let_def exampleReader_def
  exampleListing_def

lemma examplePartial_result:
  "initializeOrDiscoverReplications exampleReader examplePartialJSON AnimationData_new
     = (None, examplePartial)"
  by (simp add: examplePartial_def prod_eq_iff)
     (simp add: discovery_defs examplePartialJSON_def exampleJSON_def
        exampleManifestMissingLayout_def exampleManifest_def)

lemma examplePartial_layout:
  "modelLayout examplePartial = Some (ModelLayout ''layout'')"
  "sharedVisualConfig examplePartial
     = Some \<lparr>theme = ''dark'', loop = True, speedMultiplier = Fin 1\<rparr>"
  "availableReplications examplePartial
     = [(Fin 1, exampleManifestMissingLayout),
        (Fin 3, exampleManifest (Fin 3) ''r3/paths.json'' ''r3/queue.json'')]"
  "readLog examplePartial =
     [(ManifestDocument, ''replications/rep_002/animation_manifest_rep_002.json''),
      (ManifestDocument, ''replications/rep_001/animation_manifest_rep_001.json''),
      (ModelLayoutDocument, ''missing.json''),
      (SharedVisualConfigDocument, ''visual.json''),
      (ManifestDocument, ''replications/rep_003/animation_manifest_rep_003.json''),
      (ModelLayoutDocument, ''layout.json'')]"
  by (simp_all add: examplePartial_def discovery_defs examplePartialJSON_def exampleJSON_def
      exampleManifestMissingLayout_def exampleManifest_def)

lemma exampleDiscovered_log:
  "readLog exampleDiscovered =
     [(ManifestDocument, ''replications/rep_002/animation_manifest_rep_002.json''),
      (ManifestDocument, ''replications/rep_001/animation_manifest_rep_001.json''),
      (ModelLayoutDocument, ''layout.json''),
      (SharedVisualConfigDocument, ''visual.json''),
      (ManifestDocument, ''replications/rep_003/animation_manifest_rep_003.json'')]"
  by (simp add: exampleDiscovered_def discovery_defs exampleJSON_def exampleManifest_def)

lemma exampleListing_eligible:
  "map FileListItem.name (filter eligible exampleListing) = [''rep_002'', ''rep_001'', ''rep_003'']"
  by (simp add: exampleListing_def eligible_def startsWith_def)

text \<open>
  Claim C5 says that a shared document is fetched at most once, from the first discovered
  manifest that declares a path for it; the source says the same in its comment
  \<open>Load shared files once (only for the first replication encountered)\<close>. In the
  variant study the eligible entries are \<open>rep_002\<close>, \<open>rep_001\<close>, \<open>rep_003\<close>. The
  manifest of \<open>rep_002\<close> does not parse. The manifest of \<open>rep_001\<close> is the first
  manifest discovered, and it declares the layout path \<open>missing.json\<close>, which cannot
  be read. The discovery of a new instance returns without an error, and it has fetched
  the model layout twice, the second time from the path \<open>layout.json\<close> that the
  manifest of \<open>rep_003\<close> declares; the layout of the instance is that second document.
\<close>

theorem shared_layout_fetched_twice:
  "listDirectoryContents exampleReader ''replications'' = Some exampleListing
   \<and> map FileListItem.name (filter eligible exampleListing) = [''rep_002'', ''rep_001'', ''rep_003'']
   \<and> manifestOf exampleReader examplePartialJSON
        \<lparr>FileListItem.name = ''rep_002'', FileListItem.path = ''replications/rep_002'',
         isDirectory = True\<rparr> = None
   \<and> manifestOf exampleReader examplePartialJSON
        \<lparr>FileListItem.name = ''rep_001'', FileListItem.path = ''replications/rep_001'',
         isDirectory = True\<rparr> = Some exampleManifestMissingLayout
   \<and> modelLayoutPath (ReplicationManifestData.metadata exampleManifestMissingLayout)
       = ''missing.json''
   \<and> readFileAsText exampleReader ''missing.json'' = None
   \<and> manifestOf exampleReader examplePartialJSON
        \<lparr>FileListItem.name = ''rep_003'', FileListItem.path = ''replications/rep_003'',
         isDirectory = True\<rparr> = Some (exampleManifest (Fin 3) ''r3/paths.json'' ''r3/queue.json'')
   \<and> modelLayoutPath (ReplicationManifestData.metadata
        (exampleManifest (Fin 3) ''r3/paths.json'' ''r3/queue.json'')) = ''layout.json''
   \<and> modelLayout AnimationData_new = None
   \<and> initializeOrDiscoverReplications exampleReader examplePartialJSON AnimationData_new
       = (None, examplePartial)
   \<and> readsOf ModelLayoutDocument (readLog examplePartial) = [''missing.json'', ''layout.json'']
   \<and> modelLayout examplePartial = Some (ModelLayout ''layout'')
   \<and> modelLayout examplePartial
       = fetchAndParseJSON exampleReader (parseModelLayout examplePartialJSON) ''layout.json''"
  by (simp add: examplePartial_result examplePartial_layout exampleListing_eligible)
     (simp add: manifestOf_def eligible_def startsWith_def fetchAndParseJSON_def
        exampleReader_def manifestPathOf_def examplePartialJSON_def exampleJSON_def
        exampleManifestMissingLayout_def exampleManifest_def AnimationData_new_def)

text \<open>
  Claim C6 says that an entry whose manifest is malformed is skipped without aborting the
  scan, so that a well-formed \<open>rep_001\<close> is registered even when a malformed
  \<open>rep_002\<close> is present, and that discovery propagates no error. In this study the
  manifest file of \<open>rep_002\<close>, at
  \<open>replications/rep_002/animation_manifest_rep_002.json\<close>, holds the JSON text
  \<open>{}\<close>, and \<open>rep_002\<close> is listed before the well-formed \<open>rep_001\<close> and
  \<open>rep_003\<close>. The discovery of a new instance reads that one file and throws a
  \<open>TypeError\<close>: the scan stops there, and the registry stays empty.
\<close>

theorem discovery_aborts_on_manifest_without_metadata:
  "listDirectoryContents exampleEmptyObjectReader ''replications'' = Some exampleListing
   \<and> map FileListItem.name (filter eligible exampleListing) = [''rep_002'', ''rep_001'', ''rep_003'']
   \<and> readFileAsText exampleEmptyObjectReader
        ''replications/rep_002/animation_manifest_rep_002.json'' = Some ''{}''
   \<and> parseManifest exampleEmptyObjectJSON ''{}'' = Some WithoutMetadata
   \<and> manifestOf exampleEmptyObjectReader exampleEmptyObjectJSON
        \<lparr>FileListItem.name = ''rep_001'', FileListItem.path = ''replications/rep_001'',
         isDirectory = True\<rparr> = Some (exampleManifest (Fin 1) ''r1/paths.json'' ''r1/queue.json'')
   \<and> manifestOf exampleEmptyObjectReader exampleEmptyObjectJSON
        \<lparr>FileListItem.name = ''rep_003'', FileListItem.path = ''replications/rep_003'',
         isDirectory = True\<rparr> = Some (exampleManifest (Fin 3) ''r3/paths.json'' ''r3/queue.json'')
   \<and> initializeOrDiscoverReplications exampleEmptyObjectReader exampleEmptyObjectJSON
        AnimationData_new
       = (Some TypeError,
          AnimationData_new
            \<lparr>readLog :=
               [(ManifestDocument, ''replications/rep_002/animation_manifest_rep_002.json'')]\<rparr>)
   \<and> availableReplications
        (snd (initializeOrDiscoverReplications exampleEmptyObjectReader exampleEmptyObjectJSON
                AnimationData_new)) = []"
  by (simp add: exampleListing_eligible)
     (simp add: manifestOf_def eligible_def discovery_defs exampleEmptyObjectReader_def
        exampleEmptyObjectJSON_def exampleJSON_def exampleManifest_def)

text \<open>
  The same listing with a manifest of \<open>rep_002\<close> that is not valid JSON: the entry is
  skipped, the scan goes on, and the two well-formed replications are registered. With
  an accessor that cannot list the directory, discovery changes nothing and returns
  without an error.
\<close>

lemma exampleDiscovered_result:
  "readFileAsText exampleReader ''replications/rep_002/animation_manifest_rep_002.json''
     = Some ''{ not json''
   \<and> parseManifest exampleJSON ''{ not json'' = None
   \<and> initializeOrDiscoverReplications exampleReader exampleJSON AnimationData_new
       = (None, exampleDiscovered)
   \<and> availableReplications exampleDiscovered
       = [(Fin 1, exampleManifest (Fin 1) ''r1/paths.json'' ''r1/queue.json''),
          (Fin 3, exampleManifest (Fin 3) ''r3/paths.json'' ''r3/queue.json'')]
   \<and> readsOf ManifestDocument (readLog exampleDiscovered)
       = [''replications/rep_002/animation_manifest_rep_002.json'',
          ''replications/rep_001/animation_manifest_rep_001.json'',
          ''replications/rep_003/animation_manifest_rep_003.json'']
   \<and> initializeOrDiscoverReplications exampleUnlistable exampleJSON AnimationData_new
       = (None, AnimationData_new)"
  by (simp add: exampleDiscovered_registry exampleDiscovered_log)
     (simp add: exampleDiscovered_def prod_eq_iff discovery_defs exampleJSON_def
        exampleManifest_def exampleUnlistable_def)

section \<open>Entity lookup\<close>

lemma indexConsistent_refines: "indexConsistent s \<Longrightarrow> indexRefinesBatches s"
proof -
  assume c: "indexConsistent s"
  have "unionOfBatches (loadedEntityPathBatches s) i = pathOf (map_of (entityPathsById s) i)
      \<and> (\<forall>k. map_of (entityPathsById s) i = Some (PrototypeMember k) \<longrightarrow>
             k = i \<and> i \<in> set objectPrototypeKeys)" for i
    using c by (cases "unionOfBatches (loadedEntityPathBatches s) i")
      (simp_all add: indexConsistent_def)
  then show ?thesis by (simp add: indexRefinesBatches_def)
qed

lemma unionOfBatches_None:
  "unionOfBatches cache entityId = None \<Longrightarrow> e \<in> set cache \<Longrightarrow> map_of (snd e) entityId = None"
  by (force simp: unionOfBatches_def map_of_eq_None_iff)

lemma scanBatches_not_own:
  "\<forall>e \<in> set cache. map_of (snd e) entityId = None \<Longrightarrow>
   scanBatches entityId cache =
     (if cache \<noteq> [] \<and> entityId \<in> set objectPrototypeKeys
      then Some (PrototypeMember entityId) else None)"
  by (induction cache) (auto simp: getProperty_def)

lemma refines_unindexed:
  "indexRefinesBatches s \<Longrightarrow> map_of (entityPathsById s) entityId = None \<Longrightarrow>
   unionOfBatches (loadedEntityPathBatches s) entityId = None"
  by (simp add: indexRefinesBatches_def)

lemma getEntityPath_refines:
  assumes "indexRefinesBatches s"
  shows "getEntityPath entityId s =
     (if map_has entityId (entityPathsById s) \<or> loadedEntityPathBatches s = []
         \<or> entityId \<notin> set objectPrototypeKeys
      then (map_get entityId (entityPathsById s), s)
      else (Some (PrototypeMember entityId),
            s\<lparr>entityPathsById := entityPathsById s @ [(entityId, PrototypeMember entityId)]\<rparr>))"
proof (cases "map_has entityId (entityPathsById s)")
  case True
  then show ?thesis by (simp add: getEntityPath_def)
next
  case False
  then have none: "map_of (entityPathsById s) entityId = None"
    by (simp add: map_has_map_of)
  with assms have "unionOfBatches (loadedEntityPathBatches s) entityId = None"
    by (rule refines_unindexed)
  then have "\<forall>e \<in> set (loadedEntityPathBatches s). map_of (snd e) entityId = None"
    using unionOfBatches_None by blast
  from scanBatches_not_own[OF this] False none show ?thesis
    by (simp add: getEntityPath_def map_get_def map_set_new)
qed

lemma getEntityPath_preserves:
  assumes "indexRefinesBatches s"
  shows "indexRefinesBatches (snd (getEntityPath entityId s))"
proof (cases "map_has entityId (entityPathsById s) \<or> loadedEntityPathBatches s = []
         \<or> entityId \<notin> set objectPrototypeKeys")
  case True
  with assms show ?thesis by (simp add: getEntityPath_refines)
next
  case False
  then have none: "map_of (entityPathsById s) entityId = None"
    and proto: "entityId \<in> set objectPrototypeKeys"
    by (simp_all add: map_has_map_of)
  from assms none have u: "unionOfBatches (loadedEntityPathBatches s) entityId = None"
    by (rule refines_unindexed)
  let ?s' = "s\<lparr>entityPathsById := entityPathsById s @ [(entityId, PrototypeMember entityId)]\<rparr>"
  have eq: "snd (getEntityPath entityId s) = ?s'"
    using False by (simp add: getEntityPath_refines[OF assms])
  have look: "map_of (entityPathsById ?s') i
      = (if i = entityId then Some (PrototypeMember entityId) else map_of (entityPathsById s) i)"
    for i
    using none by (simp add: map_add_def split: option.splits)
  have "indexRefinesBatches ?s'"
    using assms u proto unfolding indexRefinesBatches_def look by simp
  with eq show ?thesis by simp
qed

lemma reachable_refines: "reachable reader json s \<Longrightarrow> indexRefinesBatches s"
proof (induction rule: reachable.induct)
  case constructed
  show ?case
    by (simp add: indexRefinesBatches_def AnimationData_new_def unionOfBatches_def)
next
  case (discovered s)
  then show ?case
    by (simp add: discovery_caches indexRefinesBatches_def)
next
  case (activated s replicationId)
  show ?case
  proof (cases "map_get replicationId (availableReplications s)")
    case None
    with activated show ?thesis by (simp add: setActiveReplication_unknown)
  next
    case (Some manifest)
    have "indexConsistent (snd (setActiveReplication reader json replicationId s))"
      by (simp add: setActiveReplication_known[OF Some] indexConsistent_def
          loadAllStatisticsFiles_frame
          foldl_loadEntityPathBatch_consistent[OF indexConsistent_clearCaches,
            unfolded indexConsistent_def])
    then show ?thesis by (rule indexConsistent_refines)
  qed
next
  case (queried s entityId)
  from queried.IH show ?case by (rule getEntityPath_preserves)
next
  case (registered s replicationId manifest)
  then show ?case by (simp add: indexRefinesBatches_def)
qed

text \<open>
  For an entity id that is not the name of a member of \<open>Object.prototype\<close>, in every
  reachable state \<open>getEntityPath\<close> is the lookup in the index and leaves the state
  unchanged, and the index entry is the one of the union of the cached batches.
\<close>

lemma getEntityPath_pure_lookup:
  "reachable reader json s \<Longrightarrow> entityId \<notin> set objectPrototypeKeys \<Longrightarrow>
   getEntityPath entityId s = (map_get entityId (entityPathsById s), s)"
  by (simp add: getEntityPath_refines[OF reachable_refines])

lemma index_union_outside_prototype:
  assumes "reachable reader json s" "entityId \<notin> set objectPrototypeKeys"
  shows "map_of (entityPathsById s) entityId
     = map_option PathValue (unionOfBatches (loadedEntityPathBatches s) entityId)"
proof -
  from reachable_refines[OF assms(1)]
  have u: "unionOfBatches (loadedEntityPathBatches s) entityId
      = pathOf (map_of (entityPathsById s) entityId)"
    and k: "\<And>k. map_of (entityPathsById s) entityId = Some (PrototypeMember k) \<Longrightarrow>
      entityId \<in> set objectPrototypeKeys"
    by (simp_all add: indexRefinesBatches_def)
  show ?thesis
  proof (cases "map_of (entityPathsById s) entityId")
    case None
    with u show ?thesis by simp
  next
    case (Some v)
    with u k assms(2) show ?thesis by (cases v) auto
  qed
qed

lemma exampleActive_reachable: "reachable exampleReader exampleJSON exampleActive"
  unfolding exampleActive_def exampleDiscovered_def
  by (intro reachable.activated reachable.discovered reachable.constructed)

lemma exampleQueried_reachable: "reachable exampleReader exampleJSON exampleQueried"
  unfolding exampleQueried_def by (intro reachable.queried exampleActive_reachable)

text \<open>
  Claim C4 says that \<open>getEntityPath\<close> returns what the lookup in the index returns
  and leaves the state unchanged. In the sample study with replication 1 active, the
  index has no entry \<open>toString\<close>, yet \<open>getEntityPath("toString")\<close> returns the
  member \<open>toString\<close> of \<open>Object.prototype\<close>, found by the fallback in the loaded
  batch, and adds it to the index.
\<close>

theorem getEntityPath_prototype_member:
  "reachable exampleReader exampleJSON exampleActive
   \<and> map_get ''toString'' (entityPathsById exampleActive) = None
   \<and> fst (getEntityPath ''toString'' exampleActive) = Some (PrototypeMember ''toString'')
   \<and> getLoadedEntityIds exampleActive = [''e1'', ''e2'']
   \<and> getLoadedEntityIds (snd (getEntityPath ''toString'' exampleActive))
       = [''e1'', ''e2'', ''toString'']"
  by (simp add: exampleActive_reachable getEntityPath_def map_has_def map_get_def
      getLoadedEntityIds_def exampleActive_entities getProperty_def exampleBatch1_def
      objectPrototypeKeys_def)

text \<open>
  Claim C10 says that in every reachable state the index is the last-write-wins union of
  the cached batches. After the query above the state is reachable, no cached batch has
  an entry \<open>toString\<close>, and the index has one.
\<close>

theorem index_not_union_after_query:
  "reachable exampleReader exampleJSON exampleQueried
   \<and> loadedEntityPathBatches exampleQueried = [(''r1/paths.json'', exampleBatch1)]
   \<and> unionOfBatches (loadedEntityPathBatches exampleQueried) ''toString'' = None
   \<and> map_of (entityPathsById exampleQueried) ''toString'' = Some (PrototypeMember ''toString'')
   \<and> \<not> indexConsistent exampleQueried"
proof -
  have q: "entityPathsById exampleQueried
      = [(''e1'', PathValue exampleEntityPath1), (''e2'', PathValue exampleEntityPath2),
         (''toString'', PrototypeMember ''toString'')]"
    "loadedEntityPathBatches exampleQueried = [(''r1/paths.json'', exampleBatch1)]"
    by (simp_all add: exampleQueried_def getEntityPath_def map_has_def map_get_def
        exampleActive_entities getProperty_def exampleBatch1_def objectPrototypeKeys_def)
  have u: "unionOfBatches (loadedEntityPathBatches exampleQueried) ''toString'' = None"
    by (simp add: q unionOfBatches_def exampleBatch1_def)
  have m: "map_of (entityPathsById exampleQueried) ''toString'' = Some (PrototypeMember ''toString'')"
    by (simp add: q)
  have "\<not> indexConsistent exampleQueried"
  proof
    assume "indexConsistent exampleQueried"
    then have "map_of (entityPathsById exampleQueried) ''toString''
        = map_option PathValue
            (unionOfBatches (loadedEntityPathBatches exampleQueried) ''toString'')"
      unfolding indexConsistent_def by (rule spec)
    with u m show False by simp
  qed
  with q u m exampleQueried_reachable show ?thesis by simp
qed

end
